theory Spec2Isabelle
  imports Complex_Main "HOL-Library.Sublist"
begin

section \<open>Batch Scheduler\<close>

text \<open>
  Both services partition the selected photos with the same loop
  (\<^verbatim>\<open>ClaudeVisionService.analyzePhotos\<close>, \<^verbatim>\<open>SimilarityGroupingService.groupPhotos\<close>):
  \<^verbatim>\<open>
  for (let i = 0; i < photos.length; i += BATCH_SIZE) {
    const batch = photos.slice(i, i + BATCH_SIZE);
    ...
  }
  \<close>
  with \<^verbatim>\<open>BATCH_SIZE = 10\<close> for scoring and \<^verbatim>\<open>BATCH_SIZE = 20\<close> for grouping.
\<close>

definition SCORING_BATCH_SIZE :: nat where
  "SCORING_BATCH_SIZE = 10"

definition GROUPING_BATCH_SIZE :: nat where
  "GROUPING_BATCH_SIZE = 20"

text \<open>\<^verbatim>\<open>Array.prototype.slice(start, end)\<close> for indices \<open>0 \<le> start \<le> end\<close>: the elements
  at positions \<open>start, ..., end - 1\<close> that exist; an \<open>end\<close> beyond the array is cut off at
  its length.\<close>

definition slice :: "'a list \<Rightarrow> nat \<Rightarrow> nat \<Rightarrow> 'a list" where
  "slice xs start end = take (end - start) (drop start xs)"

text \<open>The batches the loop visits, starting at index \<open>i\<close>, in the order it visits them.
  The step \<open>B\<close> is a positive constant in both services; with a step of \<open>0\<close> the source loop
  would not advance, and the model visits no batch.\<close>

function batches_from :: "nat \<Rightarrow> 'a list \<Rightarrow> nat \<Rightarrow> 'a list list" where
  "batches_from B photos i =
     (if i < length photos \<and> 0 < B
      then slice photos i (i + B) # batches_from B photos (i + B)
      else [])"
  by pat_completeness auto
termination
  by (relation "measure (\<lambda>(B, photos, i). length photos - i)") auto

definition batches :: "nat \<Rightarrow> 'a list \<Rightarrow> 'a list list" where
  "batches B photos = batches_from B photos 0"

declare batches_from.simps [simp del]

section \<open>JavaScript values and the environment\<close>

text \<open>
  The value \<^verbatim>\<open>JSON.parse\<close> returns has the static type \<^verbatim>\<open>any\<close>; the TypeScript return types
  of the two \<^verbatim>\<open>parseResponse\<close> methods are erased at run time. Payloads are therefore modelled
  as untyped JSON values, \<^verbatim>\<open>undefined\<close> as \<open>None\<close> of an option. Numbers are rationals:
  binary floating point rounding and overflow are not modelled.
\<close>

datatype json =
    JNull
  | JBool bool
  | JNum rat
  | JStr string
  | JArr "json list"
  | JObj "(string \<times> json) list"

text \<open>A thrown value. The code reads \<^verbatim>\<open>error.status\<close> and \<^verbatim>\<open>error.message\<close> only; an error
  raised by the language itself (a \<^verbatim>\<open>TypeError\<close>) or by the file system has no status.\<close>

datatype js_error = JsError (status: "nat option") (message: string)

definition TypeError :: "string \<Rightarrow> js_error" where
  "TypeError msg = JsError None msg"

type_synonym bytes = string
type_synonym path = string

text \<open>
  What the program takes from its platform, and the repository does not define: the JSON
  parser, the coercions JavaScript and the SQLite binding apply to values outside the declared
  interfaces (\<^verbatim>\<open>Evaluation\<close>, \<^verbatim>\<open>GroupResult\<close>), the hash, Node's \<^verbatim>\<open>path\<close> module and the image
  library. Every theorem below holds for every environment.
\<close>

record env =
  JSON_parse :: "string \<Rightarrow> json option"
    \<comment> \<open>\<^verbatim>\<open>JSON.parse\<close>; \<open>None\<close> when it throws a \<^verbatim>\<open>SyntaxError\<close>\<close>
  ToNumber :: "json \<Rightarrow> js_error + rat option"
    \<comment> \<open>numeric coercion of a string, an array or an object; \<open>Inr None\<close> is \<^verbatim>\<open>NaN\<close>\<close>
  ToString_error :: "json \<Rightarrow> js_error option"
    \<comment> \<open>the error that converting an array or an object to a string raises, if any\<close>
  bind_text :: "json option \<Rightarrow> js_error + string option"
    \<comment> \<open>binding a statement parameter that is neither a string nor \<^verbatim>\<open>null\<close>\<close>
  sha256_hex :: "bytes \<Rightarrow> string"
    \<comment> \<open>\<^verbatim>\<open>crypto.createHash('sha256').update(b).digest('hex')\<close>\<close>
  path_join :: "string list \<Rightarrow> path"
  path_basename :: "path \<Rightarrow> string"
  path_basename_ext :: "string \<Rightarrow> string \<Rightarrow> string"
    \<comment> \<open>\<^verbatim>\<open>path.basename(p, ext)\<close>\<close>
  path_extname :: "string \<Rightarrow> string"
  path_parse_name :: "string \<Rightarrow> string"
    \<comment> \<open>\<^verbatim>\<open>path.parse(p).name\<close>\<close>
  sharp_thumbnail :: "bytes \<Rightarrow> bytes option"
    \<comment> \<open>the resized JPEG of an image file, \<open>None\<close> when the library rejects the input\<close>
  sharp_placeholder :: "bytes option"
    \<comment> \<open>the gray 400 x 400 JPEG, \<open>None\<close> when the library fails to create it\<close>

text \<open>\<^verbatim>\<open>v.key\<close> for a key that no built-in prototype defines (\<^verbatim>\<open>evaluations\<close>, \<^verbatim>\<open>groups\<close>,
  \<^verbatim>\<open>photo_id\<close>, \<^verbatim>\<open>score\<close>, \<^verbatim>\<open>comment\<close>, \<^verbatim>\<open>photo_ids\<close>): an object yields its own property,
  every other value but \<^verbatim>\<open>null\<close> yields \<^verbatim>\<open>undefined\<close>, and reading a property of \<^verbatim>\<open>null\<close>
  throws.\<close>

definition own_property :: "json \<Rightarrow> string \<Rightarrow> json option" where
  "own_property v key = (case v of JObj kvs \<Rightarrow> map_of kvs key | _ \<Rightarrow> None)"

definition get_property :: "json \<Rightarrow> string \<Rightarrow> js_error + json option" where
  "get_property v key =
     (if v = JNull then Inl (TypeError ''Cannot read properties of null'')
      else Inr (own_property v key))"

text \<open>\<^verbatim>\<open>for (const x of v)\<close>: arrays and strings are iterable, nothing else a JSON payload can
  hold is.\<close>

definition iterate :: "json option \<Rightarrow> js_error + json list" where
  "iterate v =
     (case v of
        Some (JArr xs) \<Rightarrow> Inr xs
      | Some (JStr s) \<Rightarrow> Inr (map (\<lambda>c. JStr [c]) s)
      | _ \<Rightarrow> Inl (TypeError ''is not iterable''))"

definition truthy :: "json option \<Rightarrow> bool" where
  "truthy v =
     (case v of
        None \<Rightarrow> False
      | Some JNull \<Rightarrow> False
      | Some (JBool b) \<Rightarrow> b
      | Some (JNum r) \<Rightarrow> r \<noteq> 0
      | Some (JStr s) \<Rightarrow> s \<noteq> []
      | Some _ \<Rightarrow> True)"

text \<open>The numeric coercion of an operand (\<^verbatim>\<open>x * 10\<close>, \<^verbatim>\<open>x < 2\<close>): \<^verbatim>\<open>undefined\<close> is \<^verbatim>\<open>NaN\<close>,
  \<^verbatim>\<open>null\<close> is 0, \<^verbatim>\<open>true\<close> is 1; the coercion of an object can raise (an own \<^verbatim>\<open>valueOf\<close> or
  \<^verbatim>\<open>toString\<close> property that is not a function).\<close>

definition to_number :: "env \<Rightarrow> json option \<Rightarrow> js_error + rat option" where
  "to_number E v =
     (case v of
        None \<Rightarrow> Inr None
      | Some JNull \<Rightarrow> Inr (Some 0)
      | Some (JBool b) \<Rightarrow> Inr (Some (if b then 1 else 0))
      | Some (JNum r) \<Rightarrow> Inr (Some r)
      | Some other \<Rightarrow> ToNumber E other)"

text \<open>The error, if any, of converting a value to a string (in a template literal or in
  \<^verbatim>\<open>Array.prototype.join\<close>): only an array or an object can raise one.\<close>

definition to_string_error :: "env \<Rightarrow> json \<Rightarrow> js_error option" where
  "to_string_error E v =
     (case v of
        JArr xs \<Rightarrow> ToString_error E v
      | JObj kvs \<Rightarrow> ToString_error E v
      | _ \<Rightarrow> None)"

fun first_error :: "js_error option list \<Rightarrow> js_error option" where
  "first_error [] = None"
| "first_error (Some err # rest) = Some err"
| "first_error (None # rest) = first_error rest"

text \<open>\<^verbatim>\<open>Math.round(x)\<close> is the integer nearest to \<open>x\<close>, a tie going up.\<close>

definition Math_round :: "rat \<Rightarrow> rat" where
  "Math_round x = of_int \<lfloor>x + 1 / 2\<rfloor>"

text \<open>\<^verbatim>\<open>String(n)\<close> for a non-negative integer.\<close>

function decimal :: "nat \<Rightarrow> string" where
  "decimal n =
     (if n < 10 then [''0123456789'' ! n]
      else decimal (n div 10) @ [''0123456789'' ! (n mod 10)])"
  by pat_completeness auto
termination
  by (relation "measure (\<lambda>n. n)") auto

declare decimal.simps [simp del]

section \<open>Vision Response Parser\<close>

text \<open>The characters \<^verbatim>\<open>\s\<close> and \<^verbatim>\<open>trim\<close> remove, among the ASCII characters: tab, line feed,
  vertical tab, form feed, carriage return and space. (Text is modelled as a list of 8-bit
  characters; the white space code points beyond ASCII are not modelled.)\<close>

definition is_space :: "char \<Rightarrow> bool" where
  "is_space c = (c \<in> {CHR 0x09, CHR 0x0A, CHR 0x0B, CHR 0x0C, CHR 0x0D, CHR 0x20})"

definition trim :: "string \<Rightarrow> string" where
  "trim s = rev (dropWhile is_space (rev (dropWhile is_space s)))"

definition fence :: string where
  "fence = [CHR 0x60, CHR 0x60, CHR 0x60]"

text \<open>
  \<^verbatim>\<open>text.match(/```(?:json)?\s*([\s\S]*?)\s*```/)\<close>, as a backtracking matcher: the alternatives
  of each quantifier are tried in the order the regular expression engine tries them, and the
  first overall match gives capture group 1.

  \<open>ws_close r\<close>: \<open>r\<close> starts with a match of \<^verbatim>\<open>\s*```\<close>.
\<close>

fun ws_close :: "string \<Rightarrow> bool" where
  "ws_close [] = False"
| "ws_close (c # cs) = ((is_space c \<and> ws_close cs) \<or> prefix fence (c # cs))"

text \<open>\<^verbatim>\<open>([\s\S]*?)\s*```\<close>: the lazy group takes the fewest characters after which the rest
  matches.\<close>

fun lazy_capture :: "string \<Rightarrow> string option" where
  "lazy_capture [] = (if ws_close [] then Some [] else None)"
| "lazy_capture (c # cs) =
     (if ws_close (c # cs) then Some [] else map_option ((#) c) (lazy_capture cs))"

text \<open>\<^verbatim>\<open>\s*([\s\S]*?)\s*```\<close>: the greedy \<^verbatim>\<open>\s*\<close> takes a white space character when the rest
  can still match, and gives it back otherwise.\<close>

fun after_ws :: "string \<Rightarrow> string option" where
  "after_ws [] = lazy_capture []"
| "after_ws (c # cs) =
     (if is_space c
      then (case after_ws cs of Some cap \<Rightarrow> Some cap | None \<Rightarrow> lazy_capture (c # cs))
      else lazy_capture (c # cs))"

text \<open>\<^verbatim>\<open>(?:json)?\<close> followed by the rest: with the word first, then without.\<close>

definition after_fence :: "string \<Rightarrow> string option" where
  "after_fence r =
     (if prefix ''json'' r
      then (case after_ws (drop 4 r) of Some cap \<Rightarrow> Some cap | None \<Rightarrow> after_ws r)
      else after_ws r)"

definition match_here :: "string \<Rightarrow> string option" where
  "match_here s = (if prefix fence s then after_fence (drop 3 s) else None)"

text \<open>The match is attempted at every position from the left.\<close>

fun regex_match :: "string \<Rightarrow> string option" where
  "regex_match [] = match_here []"
| "regex_match (c # cs) =
     (case match_here (c # cs) of Some cap \<Rightarrow> Some cap | None \<Rightarrow> regex_match cs)"

text \<open>\<^verbatim>\<open>const jsonStr = jsonMatch ? jsonMatch[1] : text.trim();\<close>\<close>

definition jsonStr :: "string \<Rightarrow> string" where
  "jsonStr text = (case regex_match text of Some cap \<Rightarrow> cap | None \<Rightarrow> trim text)"

text \<open>\<^verbatim>\<open>ClaudeVisionService.parseResponse\<close> and \<^verbatim>\<open>SimilarityGroupingService.parseResponse\<close>:
  \<^verbatim>\<open>try { return JSON.parse(jsonStr); } catch (error) { return { evaluations: [] }; }\<close>
  (respectively \<^verbatim>\<open>{ groups: [] }\<close>).\<close>

definition empty_evaluations :: json where
  "empty_evaluations = JObj [(''evaluations'', JArr [])]"

definition empty_groups :: json where
  "empty_groups = JObj [(''groups'', JArr [])]"

definition parseResponse_scoring :: "env \<Rightarrow> string \<Rightarrow> json" where
  "parseResponse_scoring E text =
     (case JSON_parse E (jsonStr text) of Some v \<Rightarrow> v | None \<Rightarrow> empty_evaluations)"

definition parseResponse_grouping :: "env \<Rightarrow> string \<Rightarrow> json" where
  "parseResponse_grouping E text =
     (case JSON_parse E (jsonStr text) of Some v \<Rightarrow> v | None \<Rightarrow> empty_groups)"

section \<open>Photo Store and the world the services act on\<close>

text \<open>The rows of the tables \<^verbatim>\<open>projects\<close> and \<^verbatim>\<open>photos\<close> (migration \<^verbatim>\<open>001_initial_schema\<close>).
  The source's \<^verbatim>\<open>id\<close>, \<^verbatim>\<open>name\<close> and \<^verbatim>\<open>prompt\<close> carry a suffix here.\<close>

record Project =
  id_project :: nat
  name_project :: string
  prompt_project :: "string option"

record Photo =
  id_photo :: nat
  project_id :: nat
  original_filename :: string
  original_path :: path
  thumbnail_path :: path
  file_hash :: string
  file_size :: nat
  score :: "rat option"
  ai_comment :: "string option"
  selected :: bool
  similarity_group_id :: "nat option"
  created_at :: nat
  updated_at :: nat

datatype message = AnalyzingBatch nat | ErrorInBatch string | AnalysisComplete

record AnalysisProgress =
  current :: nat
  total :: nat
  message_of :: message

record UploadProgress =
  current_file :: nat
  total_files :: nat
  filename :: string

text \<open>
  Everything a service call can read or change: the two tables with the \<^verbatim>\<open>AUTOINCREMENT\<close>
  counter of \<^verbatim>\<open>photos\<close>, the file system (contents by path, directories, and the paths a write
  is refused at), the clock behind \<^verbatim>\<open>datetime('now')\<close>, and the traces of what the run did:
  the delays it slept, the number of requests sent to the vision service, and the progress
  notifications in the order they were sent.
\<close>

record world =
  projects_table :: "Project list"
  photos_table :: "Photo list"
  photos_seq :: nat
  fs_files :: "path \<Rightarrow> bytes option"
  fs_dirs :: "path set"
  fs_readonly :: "path set"
  clock :: nat
  sleeps :: "nat list"
  api_calls :: nat
  analysis_events :: "AnalysisProgress list"
  upload_events :: "UploadProgress list"

text \<open>The result of an \<^verbatim>\<open>async\<close> call: the rejection or the value, and the world after it.\<close>

type_synonym 'a outcome = "(js_error + 'a) \<times> world"

text \<open>\<^verbatim>\<open>await new Promise((resolve) => setTimeout(resolve, waitTime))\<close>\<close>

definition sleep :: "nat \<Rightarrow> world \<Rightarrow> world" where
  "sleep waitTime w = w\<lparr>clock := clock w + waitTime, sleeps := sleeps w @ [waitTime]\<rparr>"

text \<open>\<^verbatim>\<open>SELECT * FROM photos WHERE project_id = ? AND score IS NULL ORDER BY id\<close>\<close>

definition select_unscored :: "nat \<Rightarrow> world \<Rightarrow> Photo list" where
  "select_unscored pid w =
     sort_key id_photo (filter (\<lambda>p. project_id p = pid \<and> score p = None) (photos_table w))"

text \<open>\<^verbatim>\<open>SELECT * FROM photos WHERE project_id = ? ORDER BY id\<close>\<close>

definition select_project_photos :: "nat \<Rightarrow> world \<Rightarrow> Photo list" where
  "select_project_photos pid w =
     sort_key id_photo (filter (\<lambda>p. project_id p = pid) (photos_table w))"

text \<open>\<^verbatim>\<open>UPDATE photos SET score = ?, ai_comment = ?, updated_at = datetime('now') WHERE id = ?\<close>\<close>

definition update_score :: "rat option \<Rightarrow> string option \<Rightarrow> nat \<Rightarrow> world \<Rightarrow> world" where
  "update_score sc cm pid w =
     w\<lparr>photos_table :=
         map (\<lambda>p. if id_photo p = pid
                   then p\<lparr>score := sc, ai_comment := cm, updated_at := clock w\<rparr>
                   else p)
             (photos_table w)\<rparr>"

text \<open>\<^verbatim>\<open>UPDATE photos SET similarity_group_id = ? WHERE id = ?\<close>\<close>

definition update_group :: "nat \<Rightarrow> nat \<Rightarrow> world \<Rightarrow> world" where
  "update_group gid pid w =
     w\<lparr>photos_table :=
         map (\<lambda>p. if id_photo p = pid then p\<lparr>similarity_group_id := Some gid\<rparr> else p)
             (photos_table w)\<rparr>"

text \<open>\<^verbatim>\<open>UPDATE photos SET similarity_group_id = NULL WHERE project_id = ?\<close>\<close>

definition clear_groups :: "nat \<Rightarrow> world \<Rightarrow> world" where
  "clear_groups pid w =
     w\<lparr>photos_table :=
         map (\<lambda>p. if project_id p = pid then p\<lparr>similarity_group_id := None\<rparr> else p)
             (photos_table w)\<rparr>"

text \<open>\<^verbatim>\<open>SELECT COUNT(DISTINCT similarity_group_id) FROM photos
  WHERE project_id = ? AND similarity_group_id IS NOT NULL\<close>\<close>

definition count_groups :: "nat \<Rightarrow> world \<Rightarrow> nat" where
  "count_groups pid w =
     length (remdups (map similarity_group_id
       (filter (\<lambda>p. project_id p = pid \<and> similarity_group_id p \<noteq> None) (photos_table w))))"

section \<open>The vision service\<close>

text \<open>
  One call of \<^verbatim>\<open>client.messages.create\<close> either rejects with an error (a rate limit is the
  status 429) or resolves to a message with content blocks. The service is a function of the
  number of requests sent before: this covers every dependence of an answer on the request's
  payload, which is determined by the run.
\<close>

datatype content_block = TextBlock string | OtherBlock

datatype api_result = Rejects js_error | Resolves "content_block list"

type_synonym service = "nat \<Rightarrow> api_result"

text \<open>The loop that builds the request: a photo contributes an image block and its id tag when
  its thumbnail can be read, and nothing when the read fails (the failure is logged and
  swallowed). These are the photos that contribute.\<close>

definition readable_thumbnails :: "world \<Rightarrow> Photo list \<Rightarrow> Photo list" where
  "readable_thumbnails w batch = filter (\<lambda>p. fs_files w (thumbnail_path p) \<noteq> None) batch"

section \<open>Scoring Reconciler\<close>

text \<open>
  The body of the loop over \<^verbatim>\<open>parsed.evaluations\<close> in \<^verbatim>\<open>analyzeBatch\<close>:
  \<^verbatim>\<open>
  const photo = photos.find((p) => p.id === evaluation.photo_id);
  if (photo) {
    const score = Math.round(evaluation.score * 10) / 10; // Round to 1 decimal
    db.prepare(`UPDATE photos SET score = ?, ai_comment = ?, updated_at = datetime('now')
                WHERE id = ?`).run(score, evaluation.comment, evaluation.photo_id);
  }
  \<close>
  A \<^verbatim>\<open>NaN\<close> score is stored as \<^verbatim>\<open>NULL\<close>.
\<close>

definition sql_text :: "env \<Rightarrow> json option \<Rightarrow> js_error + string option" where
  "sql_text E v =
     (case v of
        Some (JStr s) \<Rightarrow> Inr (Some s)
      | Some JNull \<Rightarrow> Inr None
      | _ \<Rightarrow> bind_text E v)"

definition rounded_score :: "env \<Rightarrow> json option \<Rightarrow> js_error + rat option" where
  "rounded_score E v =
     (case to_number E v of
        Inl err \<Rightarrow> Inl err
      | Inr x \<Rightarrow> Inr (map_option (\<lambda>x. Math_round (x * 10) / 10) x))"

definition find_photo :: "Photo list \<Rightarrow> json option \<Rightarrow> Photo option" where
  "find_photo batch v = find (\<lambda>p. Some (JNum (of_nat (id_photo p))) = v) batch"

definition apply_evaluation :: "env \<Rightarrow> Photo list \<Rightarrow> json \<Rightarrow> world \<Rightarrow> unit outcome" where
  "apply_evaluation E batch evaluation w =
     (if batch = [] then (Inr (), w)
      else
        (case get_property evaluation ''photo_id'' of
           Inl err \<Rightarrow> (Inl err, w)
         | Inr pid \<Rightarrow>
             (case find_photo batch pid of
                None \<Rightarrow> (Inr (), w)
              | Some photo \<Rightarrow>
                  (case rounded_score E (own_property evaluation ''score'') of
                     Inl err \<Rightarrow> (Inl err, w)
                   | Inr sc \<Rightarrow>
                       (case sql_text E (own_property evaluation ''comment'') of
                          Inl err \<Rightarrow> (Inl err, w)
                        | Inr cm \<Rightarrow> (Inr (), update_score sc cm (id_photo photo) w))))))"

fun apply_evaluations :: "env \<Rightarrow> Photo list \<Rightarrow> json list \<Rightarrow> world \<Rightarrow> unit outcome" where
  "apply_evaluations E batch [] w = (Inr (), w)"
| "apply_evaluations E batch (evaluation # rest) w =
     (case apply_evaluation E batch evaluation w of
        (Inl err, w') \<Rightarrow> (Inl err, w')
      | (Inr u, w') \<Rightarrow> apply_evaluations E batch rest w')"

text \<open>The \<^verbatim>\<open>try\<close> block of \<^verbatim>\<open>analyzeBatch\<close> after the request was sent: take the first content
  block; when it is text, parse it and apply the evaluations.\<close>

definition save_results :: "env \<Rightarrow> Photo list \<Rightarrow> content_block list \<Rightarrow> world \<Rightarrow> unit outcome" where
  "save_results E batch blocks w =
     (case blocks of
        [] \<Rightarrow> (Inl (TypeError ''Cannot read properties of undefined''), w)
      | OtherBlock # _ \<Rightarrow> (Inr (), w)
      | TextBlock text # _ \<Rightarrow>
          (case get_property (parseResponse_scoring E text) ''evaluations'' of
             Inl err \<Rightarrow> (Inl err, w)
           | Inr evs \<Rightarrow>
               (case iterate evs of
                  Inl err \<Rightarrow> (Inl err, w)
                | Inr evaluations \<Rightarrow> apply_evaluations E batch evaluations w)))"

text \<open>
  \<^verbatim>\<open>ClaudeVisionService.analyzeBatch(photos, retryCount = 0)\<close>. Nothing is sent when no
  thumbnail could be read. An error of the request or of saving the results is caught:
  \<^verbatim>\<open>
  } catch (error: any) {
    if (error.status === 429 && retryCount < 3) {
      const waitTime = (retryCount + 1) * 5000;
      await new Promise((resolve) => setTimeout(resolve, waitTime));
      return this.analyzeBatch(photos, retryCount + 1);
    }
    throw error;
  }
  \<close>
\<close>

definition scoring_attempt :: "env \<Rightarrow> service \<Rightarrow> Photo list \<Rightarrow> world \<Rightarrow> unit outcome" where
  "scoring_attempt E svc batch w =
     (case svc (api_calls w) of
        Rejects err \<Rightarrow> (Inl err, w\<lparr>api_calls := api_calls w + 1\<rparr>)
      | Resolves blocks \<Rightarrow> save_results E batch blocks (w\<lparr>api_calls := api_calls w + 1\<rparr>))"

function analyzeBatch :: "env \<Rightarrow> service \<Rightarrow> Photo list \<Rightarrow> nat \<Rightarrow> world \<Rightarrow> unit outcome" where
  "analyzeBatch E svc batch retryCount w =
     (if readable_thumbnails w batch = [] then (Inr (), w)
      else
        (case scoring_attempt E svc batch w of
           (Inr u, w') \<Rightarrow> (Inr u, w')
         | (Inl err, w') \<Rightarrow>
             (if status err = Some 429 \<and> retryCount < 3
              then analyzeBatch E svc batch (retryCount + 1) (sleep ((retryCount + 1) * 5000) w')
              else (Inl err, w'))))"
  by pat_completeness auto
termination
  by (relation "measure (\<lambda>(E, svc, batch, retryCount, w). 3 - retryCount)") auto

declare analyzeBatch.simps [simp del]

text \<open>\<^verbatim>\<open>onProgress\<close>, as the IPC handler passes it: the notification is sent to the renderer.\<close>

definition onProgress :: "nat \<Rightarrow> nat \<Rightarrow> message \<Rightarrow> world \<Rightarrow> world" where
  "onProgress cur tot msg w =
     w\<lparr>analysis_events :=
         analysis_events w @ [\<lparr>current = cur, total = tot, message_of = msg\<rparr>]\<rparr>"

text \<open>
  The loop of \<^verbatim>\<open>analyzePhotos\<close> over the batches, \<open>k\<close> the number of batches done before:
  \<^verbatim>\<open>
  onProgress({ current: processed, total, message: `Analyzing batch ...` });
  try {
    await this.analyzeBatch(batch);
    processed += batch.length;
  } catch (error: any) {
    onProgress({ current: processed, total, message: `Error in batch, continuing... ` });
  }
  \<close>
\<close>

fun analyze_batches ::
  "env \<Rightarrow> service \<Rightarrow> nat \<Rightarrow> Photo list list \<Rightarrow> nat \<Rightarrow> nat \<Rightarrow> world \<Rightarrow> nat \<times> world" where
  "analyze_batches E svc tot [] k processed w = (processed, w)"
| "analyze_batches E svc tot (batch # rest) k processed w =
     (case analyzeBatch E svc batch 0 (onProgress processed tot (AnalyzingBatch (k + 1)) w) of
        (Inr u, w') \<Rightarrow> analyze_batches E svc tot rest (k + 1) (processed + length batch) w'
      | (Inl err, w') \<Rightarrow>
          analyze_batches E svc tot rest (k + 1) processed
            (onProgress processed tot (ErrorInBatch (message err)) w'))"

text \<open>\<^verbatim>\<open>ClaudeVisionService.analyzePhotos(onProgress)\<close>, for the service's project.\<close>

definition analyzePhotos :: "env \<Rightarrow> service \<Rightarrow> Project \<Rightarrow> world \<Rightarrow> nat \<times> world" where
  "analyzePhotos E svc project w =
     (let unscored = select_unscored (id_project project) w;
          tot = length unscored
      in if tot = 0 then (0, w)
         else
           (case analyze_batches E svc tot (batches SCORING_BATCH_SIZE unscored) 0 0 w of
              (processed, w') \<Rightarrow> (processed, onProgress processed tot AnalysisComplete w')))"

section \<open>Grouping Reconciler\<close>

text \<open>
  \<^verbatim>\<open>SimilarityGroupingService.assignGroups\<close>, one proposal:
  \<^verbatim>\<open>
  const photoIds = group.photo_ids || [];
  if (photoIds.length < 2) { continue; }
  const groupPhotos = photos.filter((p) => photoIds.includes(p.id));
  if (groupPhotos.length < 2) { continue; }
  const groupId = this.nextGroupId++;
  for (const photo of groupPhotos) {
    db.prepare('UPDATE photos SET similarity_group_id = ? WHERE id = ?').run(groupId, photo.id);
  }
  console.log(`... ${photoIds.join(', ')} - ${group.reason}`);
  \<close>
  \<^verbatim>\<open>photo_ids\<close> is declared a \<^verbatim>\<open>number[]\<close>. For the other values a payload can hold there:
  a string has a \<^verbatim>\<open>length\<close> and an \<^verbatim>\<open>includes\<close> (a substring test against \<^verbatim>\<open>String(p.id)\<close>) but
  no \<^verbatim>\<open>join\<close>; an object has the \<^verbatim>\<open>length\<close> it carries and no callable \<^verbatim>\<open>includes\<close>; a number or
  \<^verbatim>\<open>true\<close> has neither.
\<close>

definition length_lt_2 :: "env \<Rightarrow> json \<Rightarrow> js_error + bool" where
  "length_lt_2 E photoIds =
     (case photoIds of
        JArr xs \<Rightarrow> Inr (length xs < 2)
      | JStr s \<Rightarrow> Inr (length s < 2)
      | JObj kvs \<Rightarrow>
          (case to_number E (map_of kvs ''length'') of
             Inl err \<Rightarrow> Inl err
           | Inr None \<Rightarrow> Inr False
           | Inr (Some r) \<Rightarrow> Inr (r < 2))
      | _ \<Rightarrow> Inr False)"

definition filter_includes :: "json \<Rightarrow> Photo list \<Rightarrow> js_error + Photo list" where
  "filter_includes photoIds batch =
     (case photoIds of
        JArr xs \<Rightarrow> Inr (filter (\<lambda>p. JNum (of_nat (id_photo p)) \<in> set xs) batch)
      | JStr s \<Rightarrow> Inr (filter (\<lambda>p. sublist (decimal (id_photo p)) s) batch)
      | _ \<Rightarrow> if batch = [] then Inr [] else Inl (TypeError ''photoIds.includes is not a function''))"

text \<open>The error, if any, of building the log line
  \<^verbatim>\<open>`... ${photoIds.join(', ')} - ${group.reason}`\<close>.\<close>

definition log_error :: "env \<Rightarrow> json \<Rightarrow> json option \<Rightarrow> js_error option" where
  "log_error E photoIds reason =
     (case photoIds of
        JArr xs \<Rightarrow>
          (case first_error (map (to_string_error E) xs) of
             Some err \<Rightarrow> Some err
           | None \<Rightarrow> (case reason of None \<Rightarrow> None | Some v \<Rightarrow> to_string_error E v))
      | _ \<Rightarrow> Some (TypeError ''photoIds.join is not a function''))"

text \<open>The state of the service object is its \<^verbatim>\<open>nextGroupId\<close>; it is threaded with the world.\<close>

type_synonym 'a grouping_outcome = "(js_error + 'a) \<times> world \<times> nat"

definition assign_group :: "env \<Rightarrow> Photo list \<Rightarrow> json \<Rightarrow> world \<Rightarrow> nat \<Rightarrow> unit grouping_outcome" where
  "assign_group E batch grp w nextGroupId =
     (case get_property grp ''photo_ids'' of
        Inl err \<Rightarrow> (Inl err, w, nextGroupId)
      | Inr v \<Rightarrow>
          (let photoIds = (if truthy v then the v else JArr []) in
           case length_lt_2 E photoIds of
             Inl err \<Rightarrow> (Inl err, w, nextGroupId)
           | Inr True \<Rightarrow> (Inr (), w, nextGroupId)
           | Inr False \<Rightarrow>
               (case filter_includes photoIds batch of
                  Inl err \<Rightarrow> (Inl err, w, nextGroupId)
                | Inr groupPhotos \<Rightarrow>
                    if length groupPhotos < 2 then (Inr (), w, nextGroupId)
                    else
                      (let groupId = nextGroupId;
                           w' = fold (\<lambda>photo. update_group groupId (id_photo photo)) groupPhotos w
                       in case log_error E photoIds (own_property grp ''reason'') of
                            None \<Rightarrow> (Inr (), w', nextGroupId + 1)
                          | Some err \<Rightarrow> (Inl err, w', nextGroupId + 1)))))"

fun assignGroups ::
  "env \<Rightarrow> Photo list \<Rightarrow> json list \<Rightarrow> world \<Rightarrow> nat \<Rightarrow> unit grouping_outcome" where
  "assignGroups E batch [] w nextGroupId = (Inr (), w, nextGroupId)"
| "assignGroups E batch (grp # rest) w nextGroupId =
     (case assign_group E batch grp w nextGroupId of
        (Inl err, w', next') \<Rightarrow> (Inl err, w', next')
      | (Inr u, w', next') \<Rightarrow> assignGroups E batch rest w' next')"

text \<open>The \<^verbatim>\<open>try\<close> block of \<^verbatim>\<open>processBatch\<close> after the request was sent.\<close>

definition assign_results ::
  "env \<Rightarrow> Photo list \<Rightarrow> content_block list \<Rightarrow> world \<Rightarrow> nat \<Rightarrow> unit grouping_outcome" where
  "assign_results E batch blocks w nextGroupId =
     (case blocks of
        [] \<Rightarrow> (Inl (TypeError ''Cannot read properties of undefined''), w, nextGroupId)
      | OtherBlock # _ \<Rightarrow> (Inr (), w, nextGroupId)
      | TextBlock text # _ \<Rightarrow>
          (case get_property (parseResponse_grouping E text) ''groups'' of
             Inl err \<Rightarrow> (Inl err, w, nextGroupId)
           | Inr gs \<Rightarrow>
               (case iterate gs of
                  Inl err \<Rightarrow> (Inl err, w, nextGroupId)
                | Inr groups \<Rightarrow> assignGroups E batch groups w nextGroupId)))"

definition grouping_attempt ::
  "env \<Rightarrow> service \<Rightarrow> Photo list \<Rightarrow> world \<Rightarrow> nat \<Rightarrow> unit grouping_outcome" where
  "grouping_attempt E svc batch w nextGroupId =
     (case svc (api_calls w) of
        Rejects err \<Rightarrow> (Inl err, w\<lparr>api_calls := api_calls w + 1\<rparr>, nextGroupId)
      | Resolves blocks \<Rightarrow>
          assign_results E batch blocks (w\<lparr>api_calls := api_calls w + 1\<rparr>) nextGroupId)"

text \<open>\<^verbatim>\<open>SimilarityGroupingService.processBatch(photos, retryCount = 0)\<close>, with the same
  \<^verbatim>\<open>catch\<close> clause as \<^verbatim>\<open>analyzeBatch\<close>.\<close>

function processBatch ::
  "env \<Rightarrow> service \<Rightarrow> Photo list \<Rightarrow> nat \<Rightarrow> world \<Rightarrow> nat \<Rightarrow> unit grouping_outcome" where
  "processBatch E svc batch retryCount w nextGroupId =
     (if readable_thumbnails w batch = [] then (Inr (), w, nextGroupId)
      else
        (case grouping_attempt E svc batch w nextGroupId of
           (Inr u, w', next') \<Rightarrow> (Inr u, w', next')
         | (Inl err, w', next') \<Rightarrow>
             (if status err = Some 429 \<and> retryCount < 3
              then processBatch E svc batch (retryCount + 1)
                     (sleep ((retryCount + 1) * 5000) w') next'
              else (Inl err, w', next'))))"
  by pat_completeness auto
termination
  by (relation "measure (\<lambda>(E, svc, batch, retryCount, w, n). 3 - retryCount)") auto

declare processBatch.simps [simp del]

text \<open>The loop of \<^verbatim>\<open>groupPhotos\<close> over the batches: a batch of fewer than two photos is skipped,
  a failed batch is logged and the loop continues.\<close>

fun group_batches :: "env \<Rightarrow> service \<Rightarrow> Photo list list \<Rightarrow> world \<Rightarrow> nat \<Rightarrow> world \<times> nat" where
  "group_batches E svc [] w nextGroupId = (w, nextGroupId)"
| "group_batches E svc (batch # rest) w nextGroupId =
     (if length batch < 2 then group_batches E svc rest w nextGroupId
      else
        (case processBatch E svc batch 0 w nextGroupId of
           (r, w', next') \<Rightarrow> group_batches E svc rest w' next'))"

text \<open>\<^verbatim>\<open>SimilarityGroupingService.groupPhotos()\<close> on a service object as the IPC handler creates
  it for the call (\<^verbatim>\<open>nextGroupId = 1\<close>).\<close>

definition groupPhotos :: "env \<Rightarrow> service \<Rightarrow> Project \<Rightarrow> world \<Rightarrow> nat \<times> world" where
  "groupPhotos E svc project w =
     (let w1 = clear_groups (id_project project) w;
          all_photos = select_project_photos (id_project project) w1
      in if length all_photos < 2 then (0, w1)
         else
           (case group_batches E svc (batches GROUPING_BATCH_SIZE all_photos) w1 1 of
              (w2, next') \<Rightarrow> (count_groups (id_project project) w2, w2)))"

section \<open>Ingestion Pipeline\<close>

record UploadResult =
  duplicate :: bool
  photo :: "Photo option"
  existingPhoto :: "Photo option"

text \<open>\<^verbatim>\<open>name.replace(/[^0-9A-Za-z.\-\s]/g, '_').trim()\<close>\<close>

definition sanitizeName :: "string \<Rightarrow> string" where
  "sanitizeName nm =
     trim (map (\<lambda>c. if c \<in> set ''0123456789ABCDEFGHIJKLMNOPQRSTUVWXYZabcdefghijklmnopqrstuvwxyz.-''
                        \<or> is_space c
                     then c else CHR ''_'') nm)"

definition getProjectPath :: "env \<Rightarrow> path \<Rightarrow> string \<Rightarrow> path" where
  "getProjectPath E storagePath projectName = path_join E [storagePath, sanitizeName projectName]"

text \<open>File system operations. A write to a path the file system refuses throws.\<close>

definition existsSync :: "world \<Rightarrow> path \<Rightarrow> bool" where
  "existsSync w p = (fs_files w p \<noteq> None \<or> p \<in> fs_dirs w)"

definition write_file :: "path \<Rightarrow> bytes \<Rightarrow> world \<Rightarrow> js_error + world" where
  "write_file p content w =
     (if p \<in> fs_readonly w then Inl (JsError None ''EACCES'')
      else Inr (w\<lparr>fs_files := (fs_files w)(p \<mapsto> content)\<rparr>))"

definition mkdir_recursive :: "path \<Rightarrow> world \<Rightarrow> js_error + world" where
  "mkdir_recursive p w =
     (if p \<in> fs_readonly w then Inl (JsError None ''EACCES'')
      else Inr (w\<lparr>fs_dirs := insert p (fs_dirs w)\<rparr>))"

text \<open>\<^verbatim>\<open>PhotoManager.createDirectories\<close>: \<^verbatim>\<open>originals\<close>, \<^verbatim>\<open>thumbnails\<close>, \<^verbatim>\<open>exports\<close>.\<close>

definition createDirectories :: "env \<Rightarrow> path \<Rightarrow> string \<Rightarrow> world \<Rightarrow> js_error + world" where
  "createDirectories E storagePath projectName w =
     (let projectPath = getProjectPath E storagePath projectName in
      case mkdir_recursive (path_join E [projectPath, ''originals'']) w of
        Inl err \<Rightarrow> Inl err
      | Inr w1 \<Rightarrow>
          (case mkdir_recursive (path_join E [projectPath, ''thumbnails'']) w1 of
             Inl err \<Rightarrow> Inl err
           | Inr w2 \<Rightarrow> mkdir_recursive (path_join E [projectPath, ''exports'']) w2))"

text \<open>
  \<^verbatim>\<open>
  while (fsSync.existsSync(originalPath)) {
    const ext = path.extname(filename);
    const base = path.basename(filename, ext);
    originalFilename = `${base}_${counter}${ext}`;
    originalPath = path.join(projectPath, 'originals', originalFilename);
    counter++;
  }
  \<close>
  The loop ends at the first free name; \<open>None\<close> is the run that finds none.
\<close>

partial_function (option) free_name ::
  "env \<Rightarrow> world \<Rightarrow> path \<Rightarrow> string \<Rightarrow> string \<Rightarrow> path \<Rightarrow> nat \<Rightarrow> (string \<times> path) option" where
  "free_name E w projectPath fname originalFilename originalPath counter =
     (if existsSync w originalPath
      then free_name E w projectPath fname
             (path_basename_ext E fname (path_extname E fname) @ ''_'' @ decimal counter
                @ path_extname E fname)
             (path_join E [projectPath, ''originals'',
                path_basename_ext E fname (path_extname E fname) @ ''_'' @ decimal counter
                  @ path_extname E fname])
             (counter + 1)
      else Some (originalFilename, originalPath))"

declare free_name.simps [code]

text \<open>The thumbnail step: the resized image is written to \<^verbatim>\<open>thumbnailPath\<close>; when that fails for
  any reason the placeholder is written instead; when that fails too the original's path is
  used. The result is the path stored in the row.\<close>

definition make_thumbnail :: "env \<Rightarrow> bytes \<Rightarrow> path \<Rightarrow> path \<Rightarrow> world \<Rightarrow> path \<times> world" where
  "make_thumbnail E content thumbnailPath originalPath w =
     (case (case sharp_thumbnail E content of
              None \<Rightarrow> Inl (JsError None ''unsupported image format'')
            | Some jpeg \<Rightarrow> write_file thumbnailPath jpeg w) of
        Inr w1 \<Rightarrow> (thumbnailPath, w1)
      | Inl err \<Rightarrow>
          (case (case sharp_placeholder E of
                   None \<Rightarrow> Inl (JsError None ''placeholder failed'')
                 | Some jpeg \<Rightarrow> write_file thumbnailPath jpeg w) of
             Inr w1 \<Rightarrow> (thumbnailPath, w1)
           | Inl err' \<Rightarrow> (originalPath, w)))"

text \<open>\<^verbatim>\<open>INSERT INTO photos (project_id, original_filename, original_path, thumbnail_path,
  file_hash, file_size) VALUES (?, ?, ?, ?, ?, ?)\<close>; the other columns take their defaults. The
  result is the new row's id.\<close>

definition insert_photo ::
  "nat \<Rightarrow> string \<Rightarrow> path \<Rightarrow> path \<Rightarrow> string \<Rightarrow> nat \<Rightarrow> world \<Rightarrow> nat \<times> world" where
  "insert_photo pid fname opath tpath fhash nbytes w =
     (photos_seq w + 1,
      w\<lparr>photos_table := photos_table w @
           [\<lparr>id_photo = photos_seq w + 1, project_id = pid, original_filename = fname,
             original_path = opath, thumbnail_path = tpath, file_hash = fhash, file_size = nbytes,
             score = None, ai_comment = None, selected = False, similarity_group_id = None,
             created_at = clock w, updated_at = clock w\<rparr>],
         photos_seq := photos_seq w + 1\<rparr>)"

text \<open>
  \<^verbatim>\<open>PhotoManager.processUpload(project, filePath)\<close>. The outer \<open>option\<close> is \<open>None\<close> only for a
  run whose search for a free file name does not end.
\<close>

definition processUpload ::
  "env \<Rightarrow> path \<Rightarrow> Project \<Rightarrow> path \<Rightarrow> world \<Rightarrow> UploadResult outcome option" where
  "processUpload E storagePath project filePath w =
     (case fs_files w filePath of
        None \<Rightarrow> Some (Inl (JsError None ''ENOENT''), w)
      | Some fileBuffer \<Rightarrow>
          (let fileHash = sha256_hex E fileBuffer in
           case find (\<lambda>p. project_id p = id_project project \<and> file_hash p = fileHash)
                     (photos_table w) of
             Some existing \<Rightarrow>
               Some (Inr \<lparr>duplicate = True, photo = None, existingPhoto = Some existing\<rparr>, w)
           | None \<Rightarrow>
               (let fname = path_basename E filePath;
                    projectPath = getProjectPath E storagePath (name_project project)
                in case createDirectories E storagePath (name_project project) w of
                     Inl err \<Rightarrow> Some (Inl err, w)
                   | Inr w1 \<Rightarrow>
                       (case free_name E w1 projectPath fname fname
                               (path_join E [projectPath, ''originals'', fname]) 1 of
                          None \<Rightarrow> None
                        | Some (originalFilename, originalPath) \<Rightarrow>
                            (case write_file originalPath fileBuffer w1 of
                               Inl err \<Rightarrow> Some (Inl err, w1)
                             | Inr w2 \<Rightarrow>
                                 (let thumbnailPath =
                                        path_join E [projectPath, ''thumbnails'',
                                          path_parse_name E originalFilename @ ''_thumb.jpg''];
                                      (finalThumbnailPath, w3) =
                                        make_thumbnail E fileBuffer thumbnailPath originalPath w2;
                                      (rowid, w4) =
                                        insert_photo (id_project project) originalFilename
                                          originalPath finalThumbnailPath fileHash
                                          (length fileBuffer) w3
                                  in Some (Inr \<lparr>duplicate = False,
                                                 photo = find (\<lambda>p. id_photo p = rowid)
                                                              (photos_table w4),
                                                 existingPhoto = None\<rparr>, w4)))))))"

text \<open>
  The handler of \<^verbatim>\<open>PHOTOS_UPLOAD\<close>. Its loop has no \<^verbatim>\<open>try\<close>: a rejection of
  \<^verbatim>\<open>manager.processUpload\<close> rejects the handler.
  \<^verbatim>\<open>
  for (let i = 0; i < filePaths.length; i++) {
    const filePath = filePaths[i];
    const result = await manager.processUpload(project, filePath);
    if (result.duplicate) { results.duplicates++; }
    else { results.uploaded++; results.photos.push(result.photo!); }
    mainWindow.webContents.send(IPC_CHANNELS.UPLOAD_PROGRESS,
      { current: i + 1, total: filePaths.length, filename: path.basename(filePath) });
  }
  \<close>
\<close>

record UploadSummary =
  uploaded :: nat
  duplicates :: nat
  uploaded_photos :: "Photo option list"

definition count_result :: "UploadResult \<Rightarrow> UploadSummary \<Rightarrow> UploadSummary" where
  "count_result r results =
     (if duplicate r then results\<lparr>duplicates := duplicates results + 1\<rparr>
      else results\<lparr>uploaded := uploaded results + 1, uploaded_photos := uploaded_photos results @ [photo r]\<rparr>)"

definition send_upload_progress :: "nat \<Rightarrow> nat \<Rightarrow> string \<Rightarrow> world \<Rightarrow> world" where
  "send_upload_progress cur tot fname w =
     w\<lparr>upload_events :=
         upload_events w @ [\<lparr>current_file = cur, total_files = tot, filename = fname\<rparr>]\<rparr>"

fun upload_files ::
  "env \<Rightarrow> path \<Rightarrow> Project \<Rightarrow> nat \<Rightarrow> nat \<Rightarrow> path list \<Rightarrow> UploadSummary \<Rightarrow> world
     \<Rightarrow> UploadSummary outcome option" where
  "upload_files E storagePath project tot i [] results w = Some (Inr results, w)"
| "upload_files E storagePath project tot i (filePath # rest) results w =
     (case processUpload E storagePath project filePath w of
        None \<Rightarrow> None
      | Some (Inl err, w') \<Rightarrow> Some (Inl err, w')
      | Some (Inr r, w') \<Rightarrow>
          upload_files E storagePath project tot (i + 1) rest (count_result r results)
            (send_upload_progress (i + 1) tot (path_basename E filePath) w'))"

definition photos_upload ::
  "env \<Rightarrow> path \<Rightarrow> nat \<Rightarrow> path list \<Rightarrow> world \<Rightarrow> UploadSummary outcome option" where
  "photos_upload E storagePath projectId filePaths w =
     (case find (\<lambda>p. id_project p = projectId) (projects_table w) of
        None \<Rightarrow> Some (Inl (JsError None ''Project not found''), w)
      | Some project \<Rightarrow>
          upload_files E storagePath project (length filePaths) 0 filePaths
            \<lparr>uploaded = 0, duplicates = 0, uploaded_photos = []\<rparr> w)"

section \<open>Example data\<close>

text \<open>
  A concrete environment, project, store and responses, used to run the model. The parser
  table gives the value of \<^verbatim>\<open>JSON.parse\<close> on each payload the examples use and
  \<^verbatim>\<open>SyntaxError\<close> elsewhere; the identity stands in for the digest; the path functions are the
  POSIX ones on plain \<^verbatim>\<open>/\<close>-separated paths.
\<close>

definition example_JSON_parse :: "string \<Rightarrow> json option" where
  \<open>example_JSON_parse s =
     (if s = ''{"evaluations":[]}'' then Some (JObj [(''evaluations'', JArr [])])
      else if s = ''{}'' then Some (JObj [])
      else if s = ''{"evaluations":[{"photo_id":1,"score":15,"comment":"great"}]}''
      then Some (JObj [(''evaluations'', JArr
             [JObj [(''photo_id'', JNum 1), (''score'', JNum 15), (''comment'', JStr ''great'')]])])
      else if s = ''{"evaluations":[{"photo_id":1,"score":8.46,"comment":"sharp"},{"photo_id":7,"score":9,"comment":"other"}]}''
      then Some (JObj [(''evaluations'', JArr
             [JObj [(''photo_id'', JNum 1), (''score'', JNum (846 / 100)), (''comment'', JStr ''sharp'')],
              JObj [(''photo_id'', JNum 7), (''score'', JNum 9), (''comment'', JStr ''other'')]])])
      else if s = ''{"groups":[{"photo_ids":[1,2],"reason":"burst"},{"photo_ids":[2,3],"reason":"same pose"}]}''
      then Some (JObj [(''groups'', JArr
             [JObj [(''photo_ids'', JArr [JNum 1, JNum 2]), (''reason'', JStr ''burst'')],
              JObj [(''photo_ids'', JArr [JNum 2, JNum 3]), (''reason'', JStr ''same pose'')]])])
      else None)\<close>

text \<open>Responses of the service: no evaluation; one evaluation with a score of 15; one evaluation for photo 1
  and one for photo 7; two group proposals that share photo 2.\<close>

definition response_no_evaluations :: string where
  \<open>response_no_evaluations = ''{"evaluations":[]}''\<close>


definition response_photos_1_7 :: string where
  \<open>response_photos_1_7 = ''{"evaluations":[{"photo_id":1,"score":8.46,"comment":"sharp"},{"photo_id":7,"score":9,"comment":"other"}]}''\<close>

definition response_overlapping_groups :: string where
  \<open>response_overlapping_groups = ''{"groups":[{"photo_ids":[1,2],"reason":"burst"},{"photo_ids":[2,3],"reason":"same pose"}]}''\<close>

definition example_env :: env where
  "example_env =
     \<lparr>JSON_parse = example_JSON_parse,
      ToNumber = (\<lambda>v. Inr None),
      ToString_error = (\<lambda>v. None),
      bind_text = (\<lambda>v. Inl (TypeError ''SQLite3 can only bind numbers, strings, bigints, buffers, and null'')),
      sha256_hex = (\<lambda>b. b),
      path_join = (\<lambda>ps. concat (map (\<lambda>p. CHR ''/'' # p) ps)),
      path_basename = (\<lambda>p. rev (takeWhile (\<lambda>c. c \<noteq> CHR ''/'') (rev p))),
      path_basename_ext = (\<lambda>p e. if e \<noteq> [] \<and> suffix e p then take (length p - length e) p else p),
      path_extname = (\<lambda>p. if CHR ''.'' \<in> set p
                            then CHR ''.'' # rev (takeWhile (\<lambda>c. c \<noteq> CHR ''.'') (rev p)) else []),
      path_parse_name = (\<lambda>p. rev (drop 1 (dropWhile (\<lambda>c. c \<noteq> CHR ''.'') (rev p)))),
      sharp_thumbnail = (\<lambda>b. Some b),
      sharp_placeholder = Some ''gray''\<rparr>"

definition example_project :: Project where
  "example_project = \<lparr>id_project = 1, name_project = ''Holiday'', prompt_project = None\<rparr>"

definition example_photo :: "nat \<Rightarrow> string \<Rightarrow> Photo" where
  "example_photo n nm =
     \<lparr>id_photo = n, project_id = 1, original_filename = nm @ ''.jpg'',
      original_path = ''/store/Holiday/originals/'' @ nm @ ''.jpg'',
      thumbnail_path = ''/store/Holiday/thumbnails/'' @ nm @ ''_thumb.jpg'',
      file_hash = ''bytes of '' @ nm, file_size = 10, score = None, ai_comment = None,
      selected = False, similarity_group_id = None, created_at = 0, updated_at = 0\<rparr>"

definition example_photos :: "Photo list" where
  "example_photos = [example_photo 1 ''a'', example_photo 2 ''b'', example_photo 3 ''c'']"

text \<open>A photo of another project, in the same table.\<close>

definition other_photo :: Photo where
  "other_photo = (example_photo 7 ''z'')\<lparr>project_id := 2\<rparr>"

definition example_files :: "path \<Rightarrow> bytes option" where
  "example_files =
     [''/store/Holiday/thumbnails/a_thumb.jpg'' \<mapsto> ''jpeg a'',
      ''/store/Holiday/thumbnails/b_thumb.jpg'' \<mapsto> ''jpeg b'',
      ''/store/Holiday/thumbnails/c_thumb.jpg'' \<mapsto> ''jpeg c'',
      ''/store/Holiday/thumbnails/z_thumb.jpg'' \<mapsto> ''jpeg z'',
      ''/camera/a.jpg'' \<mapsto> ''bytes of a'',
      ''/camera/copy of a.jpg'' \<mapsto> ''bytes of a'',
      ''/camera/d.jpg'' \<mapsto> ''bytes of d'']"

definition example_world :: world where
  "example_world =
     \<lparr>projects_table = [example_project], photos_table = example_photos @ [other_photo],
      photos_seq = 7,
      fs_files = example_files, fs_dirs = {}, fs_readonly = {}, clock = 100, sleeps = [],
      api_calls = 0, analysis_events = [], upload_events = []\<rparr>"

definition rate_limited :: js_error where
  "rate_limited = JsError (Some 429) ''rate_limit_error''"


definition always_limited :: service where
  "always_limited = (\<lambda>k. Rejects rate_limited)"

definition answers :: "string \<Rightarrow> service" where
  "answers answer = (\<lambda>k. Resolves [TextBlock answer])"

section \<open>Properties of the Batch Scheduler\<close>


lemma concat_batches_from:
  "0 < B \<Longrightarrow> concat (batches_from B photos i) = drop i photos"
proof (induction B photos i rule: batches_from.induct)
  case (1 B photos i)
  show ?case
  proof (cases "i < length photos")
    case True
    have "concat (batches_from B photos i)
          = take B (drop i photos) @ concat (batches_from B photos (i + B))"
      using True "1.prems" by (subst batches_from.simps) (simp add: slice_def)
    also have "\<dots> = take B (drop i photos) @ drop (i + B) photos"
      using "1.IH" True "1.prems" by simp
    also have "\<dots> = drop i photos"
      by (metis add.commute append_take_drop_id drop_drop)
    finally show ?thesis .
  next
    case False
    then show ?thesis by (subst batches_from.simps) simp
  qed
qed

lemma div_add_step: "0 < (B::nat) \<Longrightarrow> (m + B) div B = Suc (m div B)"
  by simp

lemma length_batches_from:
  "0 < B \<Longrightarrow> length (batches_from B photos i) = (length photos - i + B - 1) div B"
proof (induction B photos i rule: batches_from.induct)
  case (1 B photos i)
  show ?case
  proof (cases "i < length photos")
    case True
    have "length (batches_from B photos i) = Suc (length (batches_from B photos (i + B)))"
      using True "1.prems" by (subst batches_from.simps) simp
    also have "\<dots> = Suc ((length photos - (i + B) + B - 1) div B)"
      using "1.IH" True "1.prems" by simp
    also have "\<dots> = (length photos - i + B - 1) div B"
    proof (cases "i + B \<le> length photos")
      case True
      then have "length photos - i + B - 1 = (length photos - (i + B) + B - 1) + B"
        using "1.prems" by simp
      moreover have "((length photos - (i + B) + B - 1) + B) div B
                     = Suc ((length photos - (i + B) + B - 1) div B)"
        using "1.prems" by (rule div_add_step)
      ultimately show ?thesis by (simp only:)
    next
      case False
      then have a: "length photos - (i + B) + B - 1 < B" using "1.prems" by simp
      have b: "length photos - i + B - 1 = (length photos - i - 1) + B"
        using True by simp
      have c: "length photos - i - 1 < B" using False True by simp
      have "(length photos - i - 1 + B) div B = Suc ((length photos - i - 1) div B)"
        using "1.prems" by (rule div_add_step)
      then show ?thesis using a c by (simp only: b div_less)
    qed
    finally show ?thesis .
  next
    case False
    then have "length photos - i + B - 1 < B" using "1.prems" by simp
    then show ?thesis using False by (subst batches_from.simps) simp
  qed
qed

lemma nth_batches_from:
  "0 < B \<Longrightarrow> k < length (batches_from B photos i) \<Longrightarrow>
     batches_from B photos i ! k = slice photos (i + k * B) (i + k * B + B)"
proof (induction B photos i arbitrary: k rule: batches_from.induct)
  case (1 B photos i)
  from "1.prems"(2) have lt: "i < length photos"
    by (subst (asm) batches_from.simps) (simp split: if_splits)
  have unf: "batches_from B photos i = slice photos i (i + B) # batches_from B photos (i + B)"
    using lt "1.prems"(1) by (subst batches_from.simps) simp
  show ?case
  proof (cases k)
    case 0
    then show ?thesis by (simp add: unf)
  next
    case (Suc k')
    then have "k' < length (batches_from B photos (i + B))"
      using "1.prems"(2) unf by simp
    then have "batches_from B photos (i + B) ! k'
               = slice photos (i + B + k' * B) (i + B + k' * B + B)"
      using "1.IH" lt "1.prems"(1) by simp
    then show ?thesis by (simp add: unf Suc add_ac)
  qed
qed

lemma ceiling_div_nat:
  assumes "0 < (B::nat)"
  shows "\<lceil>real N / real B\<rceil> = int ((N + B - 1) div B)"
proof -
  define m where "m = (N + B - 1) div B"
  have lo: "m * B \<le> N + B - 1"
    unfolding m_def by (rule div_times_less_eq_dividend)
  have hi: "N + B - 1 < m * B + B"
    unfolding m_def using assms dividend_less_div_times [of B "N + B - 1"] by simp
  from lo assms have lo': "m * B < N + B" by simp
  from hi assms have hi': "N \<le> m * B" by simp
  have "real N \<le> real m * real B"
    using hi' by (metis of_nat_le_iff of_nat_mult)
  then have up: "real N / real B \<le> real m"
    using assms by (simp add: pos_divide_le_eq)
  have "real m * real B < real N + real B"
    using lo' by (metis of_nat_less_iff of_nat_mult of_nat_add)
  then have "(real m - 1) * real B < real N"
    by (simp add: algebra_simps)
  then have dn: "real m - 1 < real N / real B"
    using assms by (simp add: pos_less_divide_eq)
  have "\<lceil>real N / real B\<rceil> = int m"
    using up dn by (intro ceiling_unique) simp_all
  then show ?thesis by (simp add: m_def)
qed

lemma batches_count_bound:
  assumes "0 < B"
  shows "length (batches B photos) * B < length photos + B"
proof -
  have "((length photos + B - 1) div B) * B \<le> length photos + B - 1"
    by (rule div_times_less_eq_dividend)
  then have "((length photos + B - 1) div B) * B < length photos + B"
    using assms by arith
  moreover have "length (batches B photos) = (length photos + B - 1) div B"
    using assms by (simp add: batches_def length_batches_from)
  ultimately show ?thesis by (simp only:)
qed

lemma batches_nth:
  assumes "0 < B" and "k < length (batches B photos)"
  shows "batches B photos ! k = take B (drop (k * B) photos)"
  using nth_batches_from [of B k photos 0] assms by (simp add: batches_def slice_def)

lemma batches_start_in_range:
  assumes "0 < B" and "k < length (batches B photos)"
  shows "k * B < length photos"
proof -
  from assms(2) have "Suc k * B \<le> length (batches B photos) * B"
    by (simp only: Suc_le_eq [symmetric] mult_le_mono1)
  with batches_count_bound [OF assms(1), of photos] show ?thesis by simp
qed

lemma batches_full_before_last:
  assumes "0 < B" and "Suc k < length (batches B photos)"
  shows "length (batches B photos ! k) = B"
proof -
  from assms(2) have "Suc k * B < length photos"
    by (rule batches_start_in_range [OF assms(1)])
  then have "B \<le> length photos - k * B" by simp
  moreover have "k < length (batches B photos)" using assms(2) by simp
  ultimately show ?thesis by (simp add: batches_nth [OF assms(1)])
qed

lemma batches_member_size:
  assumes "0 < B" and "b \<in> set (batches B photos)"
  shows "0 < length b \<and> length b \<le> B"
proof -
  from assms(2) obtain k where k: "k < length (batches B photos)" "b = batches B photos ! k"
    by (auto simp: in_set_conv_nth)
  have "k * B < length photos" by (rule batches_start_in_range [OF assms(1) k(1)])
  then show ?thesis using assms(1) by (simp add: k(2) batches_nth [OF assms(1) k(1)])
qed

text \<open>
  \<^bold>\<open>C5.\<close> For a list of \<open>N\<close> photos and a batch size \<open>B\<close> (10 for scoring, 20 for grouping; any
  positive \<open>B\<close>) the loop visits \<open>\<lceil>N / B\<rceil>\<close> batches; their concatenation in order is the
  input; batch number \<open>k\<close> is the slice of the input that starts at position \<open>k * B\<close>, so the
  batches are consecutive, non-overlapping and in input order; every batch but the last has
  exactly \<open>B\<close> photos, and every batch has between \<open>1\<close> and \<open>B\<close> photos.
\<close>

theorem batches_partition:
  assumes "0 < B"
  shows "int (length (batches B photos)) = \<lceil>real (length photos) / real B\<rceil>
       \<and> concat (batches B photos) = photos
       \<and> (\<forall>k < length (batches B photos). batches B photos ! k = slice photos (k * B) (k * B + B))
       \<and> (\<forall>k. Suc k < length (batches B photos) \<longrightarrow> length (batches B photos ! k) = B)
       \<and> (\<forall>b \<in> set (batches B photos). 0 < length b \<and> length b \<le> B)"
proof (intro conjI allI impI ballI)
  show "int (length (batches B photos)) = \<lceil>real (length photos) / real B\<rceil>"
    using assms by (simp add: ceiling_div_nat batches_def length_batches_from)
  show "concat (batches B photos) = photos"
    using assms by (simp add: batches_def concat_batches_from)
  show "batches B photos ! k = slice photos (k * B) (k * B + B)"
    if "k < length (batches B photos)" for k
    using that assms by (simp add: batches_nth slice_def)
  show "length (batches B photos ! k) = B" if "Suc k < length (batches B photos)" for k
    using that assms by (rule batches_full_before_last [rotated])
  show "0 < length b" if "b \<in> set (batches B photos)" for b
    using batches_member_size [OF assms that] by simp
  show "length b \<le> B" if "b \<in> set (batches B photos)" for b
    using batches_member_size [OF assms that] by simp
qed

theorem batches_partition_witness:
  "0 < SCORING_BATCH_SIZE
   \<and> int (length (batches SCORING_BATCH_SIZE ''abcdefghijklmnopqrstuvwxy'')) = 3
   \<and> concat (batches SCORING_BATCH_SIZE ''abcdefghijklmnopqrstuvwxy'') = ''abcdefghijklmnopqrstuvwxy''
   \<and> batches SCORING_BATCH_SIZE ''abcdefghijklmnopqrstuvwxy'' ! 2 = ''uvwxy''
   \<and> length (batches SCORING_BATCH_SIZE ''abcdefghijklmnopqrstuvwxy'' ! 1) = SCORING_BATCH_SIZE"
proof -
  let ?xs = "''abcdefghijklmnopqrstuvwxy''"
  have h: "0 < SCORING_BATCH_SIZE" by (simp add: SCORING_BATCH_SIZE_def)
  have c: "\<lceil>real (length ?xs) / real SCORING_BATCH_SIZE\<rceil> = 3"
    by (simp add: SCORING_BATCH_SIZE_def ceiling_eq_iff)
  note t = batches_partition [OF h, of ?xs]
  from t c have len: "length (batches SCORING_BATCH_SIZE ?xs) = 3" by linarith
  from t have cc: "concat (batches SCORING_BATCH_SIZE ?xs) = ?xs" by (simp only:)
  from t len have "batches SCORING_BATCH_SIZE ?xs ! 2
                   = slice ?xs (2 * SCORING_BATCH_SIZE) (2 * SCORING_BATCH_SIZE + SCORING_BATCH_SIZE)"
    by simp
  then have third: "batches SCORING_BATCH_SIZE ?xs ! 2 = ''uvwxy''"
    by (simp add: slice_def SCORING_BATCH_SIZE_def)
  from t have "\<forall>k. Suc k < length (batches SCORING_BATCH_SIZE ?xs)
                  \<longrightarrow> length (batches SCORING_BATCH_SIZE ?xs ! k) = SCORING_BATCH_SIZE"
    by blast
  then have "Suc 1 < length (batches SCORING_BATCH_SIZE ?xs)
             \<longrightarrow> length (batches SCORING_BATCH_SIZE ?xs ! 1) = SCORING_BATCH_SIZE"
    by (rule spec)
  with len have full: "length (batches SCORING_BATCH_SIZE ?xs ! 1) = SCORING_BATCH_SIZE"
    by simp
  show ?thesis using h len cc third full by simp
qed

section \<open>What a batch call leaves alone\<close>

text \<open>Saving results changes rows of \<^verbatim>\<open>photos\<close> and nothing else in the world.\<close>

definition rows_only :: "world \<Rightarrow> world \<Rightarrow> bool" where
  "rows_only w w' = (w' = w\<lparr>photos_table := photos_table w'\<rparr>)"

lemma rows_only_refl [simp]: "rows_only w w"
  by (simp add: rows_only_def)



lemma rows_only_update_score [simp]: "rows_only w (update_score sc cm pid w)"
  by (simp add: rows_only_def update_score_def)

lemma rows_only_update_group [simp]: "rows_only w (update_group gid pid w)"
  by (simp add: rows_only_def update_group_def)

lemma rows_only_clear_groups [simp]: "rows_only w (clear_groups pid w)"
  by (simp add: rows_only_def clear_groups_def)









section \<open>Retry Governor\<close>

lemma readable_thumbnails_sleep [simp]:
  "readable_thumbnails (sleep t w) batch = readable_thumbnails w batch"
  by (simp add: readable_thumbnails_def sleep_def)

lemma readable_thumbnails_api_calls [simp]:
  "readable_thumbnails (w\<lparr>api_calls := n\<rparr>) batch = readable_thumbnails w batch"
  by (simp add: readable_thumbnails_def)

lemma sleep_fields [simp]:
  "sleeps (sleep t w) = sleeps w @ [t]" "api_calls (sleep t w) = api_calls w"
  "clock (sleep t w) = clock w + t" "fs_files (sleep t w) = fs_files w"
  "photos_table (sleep t w) = photos_table w"
  by (simp_all add: sleep_def)







text \<open>The delays of a call that starts at \<open>retryCount\<close> and is rate-limited \<open>n\<close> times.\<close>

definition delays :: "nat \<Rightarrow> nat \<Rightarrow> nat list" where
  "delays retryCount n = map (\<lambda>i. (retryCount + i + 1) * 5000) [0..<n]"

lemma delays_0 [simp]: "delays rc 0 = []"
  by (simp add: delays_def)


lemma analyzeBatch_unfold:
  "readable_thumbnails w batch \<noteq> [] \<Longrightarrow> scoring_attempt E svc batch w = (r1, w1) \<Longrightarrow>
     analyzeBatch E svc batch retryCount w =
       (case r1 of
          Inr u \<Rightarrow> (Inr u, w1)
        | Inl err \<Rightarrow>
            if status err = Some 429 \<and> retryCount < 3
            then analyzeBatch E svc batch (retryCount + 1) (sleep ((retryCount + 1) * 5000) w1)
            else (Inl err, w1))"
  by (subst analyzeBatch.simps) simp


lemma processBatch_unfold:
  "readable_thumbnails w batch \<noteq> [] \<Longrightarrow> grouping_attempt E svc batch w g = (r1, w1, g1) \<Longrightarrow>
     processBatch E svc batch retryCount w g =
       (case r1 of
          Inr u \<Rightarrow> (Inr u, w1, g1)
        | Inl err \<Rightarrow>
            if status err = Some 429 \<and> retryCount < 3
            then processBatch E svc batch (retryCount + 1) (sleep ((retryCount + 1) * 5000) w1) g1
            else (Inl err, w1, g1))"
  by (subst processBatch.simps) (simp split: sum.splits)









lemma analyzeBatch_final:
  assumes "readable_thumbnails w batch \<noteq> []" and "scoring_attempt E svc batch w = (r1, w1)"
    and "\<And>err. r1 = Inl err \<Longrightarrow> (status err = Some 429 \<and> retryCount < 3) = False"
  shows "analyzeBatch E svc batch retryCount w = (r1, w1)"
proof (cases r1)
  case (Inl err)
  from assms(3) [OF Inl] show ?thesis
    by (simp only: analyzeBatch_unfold [OF assms(1,2)] Inl sum.case if_False)
next
  case (Inr u)
  then show ?thesis by (simp add: analyzeBatch_unfold [OF assms(1,2)])
qed


lemma processBatch_final:
  assumes "readable_thumbnails w batch \<noteq> []"
    and "grouping_attempt E svc batch w g = (r1, w1, g1)"
    and "\<And>err. r1 = Inl err \<Longrightarrow> (status err = Some 429 \<and> retryCount < 3) = False"
  shows "processBatch E svc batch retryCount w g = (r1, w1, g1)"
proof (cases r1)
  case (Inl err)
  from assms(3) [OF Inl] show ?thesis
    by (simp only: processBatch_unfold [OF assms(1,2)] Inl sum.case if_False)
next
  case (Inr u)
  then show ?thesis by (simp add: processBatch_unfold [OF assms(1,2)])
qed





section \<open>Properties of the Vision Response Parser\<close>

















section \<open>Invariants of the rows under a run\<close>

text \<open>
  A relation between the rows before and after that is reflexive and transitive, and that
  every single row update of a run respects, holds between the rows before and after the run.
\<close>

definition preorder_on_rows :: "(Photo list \<Rightarrow> Photo list \<Rightarrow> bool) \<Rightarrow> bool" where
  "preorder_on_rows R = ((\<forall>t. R t t) \<and> (\<forall>a b c. R a b \<longrightarrow> R b c \<longrightarrow> R a c))"

definition score_updates_respect :: "(Photo list \<Rightarrow> Photo list \<Rightarrow> bool) \<Rightarrow> Photo list \<Rightarrow> bool" where
  "score_updates_respect R batch =
     (\<forall>sc cm p w. p \<in> set batch \<longrightarrow>
        R (photos_table w) (photos_table (update_score sc cm (id_photo p) w)))"

definition group_updates_respect :: "(Photo list \<Rightarrow> Photo list \<Rightarrow> bool) \<Rightarrow> Photo list \<Rightarrow> bool" where
  "group_updates_respect R batch =
     (\<forall>gid p w. p \<in> set batch \<longrightarrow>
        R (photos_table w) (photos_table (update_group gid (id_photo p) w)))"

lemma preorder_refl: "preorder_on_rows R \<Longrightarrow> R t t"
  by (simp add: preorder_on_rows_def)

lemma preorder_trans: "preorder_on_rows R \<Longrightarrow> R a b \<Longrightarrow> R b c \<Longrightarrow> R a c"
  unfolding preorder_on_rows_def by blast

lemma find_photo_in_batch: "find_photo batch v = Some p \<Longrightarrow> p \<in> set batch"
  by (auto simp: find_photo_def find_Some_iff)

lemma apply_evaluation_respects:
  assumes "preorder_on_rows R" and "score_updates_respect R batch"
    and "apply_evaluation E batch ev w = (r, w')"
  shows "R (photos_table w) (photos_table w')"
proof (cases "\<exists>p sc cm. find_photo batch (own_property ev ''photo_id'') = Some p
          \<and> w' = update_score sc cm (id_photo p) w")
  case True
  then obtain p sc cm where "p \<in> set batch"
    and "w' = update_score sc cm (id_photo p) w"
    by (auto dest: find_photo_in_batch)
  with assms(2) show ?thesis by (simp add: score_updates_respect_def)
next
  case False
  with assms(3) have "w' = w"
    by (auto simp: apply_evaluation_def get_property_def
             split: if_splits sum.splits option.splits)
  with assms(1) show ?thesis by (simp add: preorder_refl)
qed

lemma apply_evaluations_respects:
  assumes "preorder_on_rows R" and "score_updates_respect R batch"
  shows "apply_evaluations E batch evs w = (r, w') \<Longrightarrow> R (photos_table w) (photos_table w')"
proof (induction evs arbitrary: w)
  case Nil
  with assms(1) show ?case by (simp add: preorder_refl)
next
  case (Cons ev evs)
  obtain r1 w1 where s: "apply_evaluation E batch ev w = (r1, w1)"
    by (cases "apply_evaluation E batch ev w")
  have a: "R (photos_table w) (photos_table w1)"
    by (rule apply_evaluation_respects [OF assms s])
  show ?case
  proof (cases r1)
    case (Inl err)
    with Cons.prems s a show ?thesis by simp
  next
    case (Inr u)
    with Cons.prems s have "apply_evaluations E batch evs w1 = (r, w')" by simp
    then have "R (photos_table w1) (photos_table w')" by (rule Cons.IH)
    with assms(1) a show ?thesis by (rule preorder_trans)
  qed
qed

lemma save_results_respects:
  assumes "preorder_on_rows R" and "score_updates_respect R batch"
    and "save_results E batch blocks w = (r, w')"
  shows "R (photos_table w) (photos_table w')"
proof (cases "\<exists>evs. apply_evaluations E batch evs w = (r, w')")
  case True
  then show ?thesis using apply_evaluations_respects [OF assms(1,2)] by blast
next
  case False
  with assms(3) have "w' = w"
    by (auto simp: save_results_def split: list.splits content_block.splits sum.splits)
  with assms(1) show ?thesis by (simp add: preorder_refl)
qed

lemma scoring_attempt_respects:
  assumes "preorder_on_rows R" and "score_updates_respect R batch"
    and "scoring_attempt E svc batch w = (r, w')"
  shows "R (photos_table w) (photos_table w')"
proof (cases "svc (api_calls w)")
  case (Rejects err)
  with assms(3) have "photos_table w' = photos_table w"
    by (auto simp: scoring_attempt_def)
  with assms(1) show ?thesis by (simp add: preorder_refl)
next
  case (Resolves blocks)
  with assms(3)
  have "save_results E batch blocks (w\<lparr>api_calls := api_calls w + 1\<rparr>) = (r, w')"
    by (simp add: scoring_attempt_def)
  from save_results_respects [OF assms(1,2) this] show ?thesis by simp
qed

lemma analyzeBatch_respects:
  assumes "preorder_on_rows R" and "score_updates_respect R batch"
  shows "analyzeBatch E svc batch retryCount w = (r, w') \<Longrightarrow> R (photos_table w) (photos_table w')"
proof (induction k \<equiv> "3 - retryCount" arbitrary: retryCount w)
  case 0
  show ?case
  proof (cases "readable_thumbnails w batch = []")
    case True
    with "0.prems" have "w' = w" by (subst (asm) analyzeBatch.simps) simp
    with assms(1) show ?thesis by (simp add: preorder_refl)
  next
    case False
    obtain r1 w1 where att: "scoring_attempt E svc batch w = (r1, w1)"
      by (cases "scoring_attempt E svc batch w")
    from 0 have "(status err = Some 429 \<and> retryCount < 3) = False" for err by simp
    then have "analyzeBatch E svc batch retryCount w = (r1, w1)"
      by (intro analyzeBatch_final [OF False att])
    with "0.prems" have "w' = w1" by simp
    with scoring_attempt_respects [OF assms att] show ?thesis by simp
  qed
next
  case (Suc k)
  show ?case
  proof (cases "readable_thumbnails w batch = []")
    case True
    with Suc.prems have "w' = w" by (subst (asm) analyzeBatch.simps) simp
    with assms(1) show ?thesis by (simp add: preorder_refl)
  next
    case False
    obtain r1 w1 where att: "scoring_attempt E svc batch w = (r1, w1)"
      by (cases "scoring_attempt E svc batch w")
    note a = scoring_attempt_respects [OF assms att]
    note unf = analyzeBatch_unfold [OF False att, of retryCount]
    show ?thesis
    proof (cases "\<exists>err. r1 = Inl err \<and> status err = Some 429 \<and> retryCount < 3")
      case True
      then obtain err where err: "r1 = Inl err" "status err = Some 429" "retryCount < 3" by blast
      let ?w2 = "sleep ((retryCount + 1) * 5000) w1"
      have "analyzeBatch E svc batch retryCount w = analyzeBatch E svc batch (retryCount + 1) ?w2"
        using err by (simp add: unf)
      from this Suc.prems have step: "analyzeBatch E svc batch (retryCount + 1) ?w2 = (r, w')"
        by (rule trans [OF sym])
      have k: "k = 3 - (retryCount + 1)" using Suc.hyps(2) by simp
      from Suc.hyps(1) [OF k step] have "R (photos_table w1) (photos_table w')" by simp
      with assms(1) a show ?thesis by (rule preorder_trans)
    next
      case False
      then have "(status err = Some 429 \<and> retryCount < 3) = False" if "r1 = Inl err" for err
        using that by simp
      then have "analyzeBatch E svc batch retryCount w = (r1, w1)"
        by (intro analyzeBatch_final [OF \<open>readable_thumbnails w batch \<noteq> []\<close> att])
      with Suc.prems have "w' = w1" by simp
      with a show ?thesis by simp
    qed
  qed
qed

lemma onProgress_rows [simp]: "photos_table (onProgress cur tot msg w) = photos_table w"
  by (simp add: onProgress_def)

lemma analyze_batches_respects:
  assumes "preorder_on_rows R" and "\<And>b. b \<in> set bs \<Longrightarrow> score_updates_respect R b"
  shows "analyze_batches E svc tot bs k processed w = (n, w')
           \<Longrightarrow> R (photos_table w) (photos_table w')"
  using assms(2)
proof (induction bs arbitrary: k processed w)
  case Nil
  with assms(1) show ?case by (simp add: preorder_refl)
next
  case (Cons b bs)
  let ?w0 = "onProgress processed tot (AnalyzingBatch (k + 1)) w"
  obtain r1 w1 where s: "analyzeBatch E svc b 0 ?w0 = (r1, w1)"
    by (cases "analyzeBatch E svc b 0 ?w0")
  have "score_updates_respect R b" using Cons.prems(2) by simp
  from analyzeBatch_respects [OF assms(1) this s]
  have a: "R (photos_table w) (photos_table w1)" by simp
  have rest: "\<And>b'. b' \<in> set bs \<Longrightarrow> score_updates_respect R b'"
    using Cons.prems(2) by simp
  show ?case
  proof (cases r1)
    case (Inl err)
    with Cons.prems(1) s
    have "analyze_batches E svc tot bs (k + 1) processed
            (onProgress processed tot (ErrorInBatch (message err)) w1) = (n, w')"
      by simp
    from Cons.IH [OF this rest] have "R (photos_table w1) (photos_table w')" by simp
    with assms(1) a show ?thesis by (rule preorder_trans)
  next
    case (Inr u)
    with Cons.prems(1) s
    have "analyze_batches E svc tot bs (k + 1) (processed + length b) w1 = (n, w')"
      by simp
    from Cons.IH [OF this rest] have "R (photos_table w1) (photos_table w')" .
    with assms(1) a show ?thesis by (rule preorder_trans)
  qed
qed

lemma analyzePhotos_respects:
  assumes "preorder_on_rows R" and "\<And>b. score_updates_respect R b"
  shows "R (photos_table w) (photos_table (snd (analyzePhotos E svc project w)))"
proof (cases "length (select_unscored (id_project project) w) = 0")
  case True
  then show ?thesis using assms(1) by (simp add: analyzePhotos_def preorder_refl)
next
  case False
  obtain n w' where s: "analyze_batches E svc (length (select_unscored (id_project project) w))
        (batches SCORING_BATCH_SIZE (select_unscored (id_project project) w)) 0 0 w = (n, w')"
    by (cases "analyze_batches E svc (length (select_unscored (id_project project) w))
        (batches SCORING_BATCH_SIZE (select_unscored (id_project project) w)) 0 0 w")
  have "R (photos_table w) (photos_table w')"
    by (rule analyze_batches_respects [OF assms(1) assms(2) s])
  then show ?thesis using False s by (simp add: analyzePhotos_def Let_def)
qed

section \<open>Properties of the Scoring Reconciler\<close>

text \<open>The rows keep their ids, and every row whose id is not in \<open>ids\<close> is unchanged.\<close>

definition unchanged_outside :: "nat set \<Rightarrow> Photo list \<Rightarrow> Photo list \<Rightarrow> bool" where
  "unchanged_outside ids t t' =
     list_all2 (\<lambda>p p'. id_photo p' = id_photo p \<and> (id_photo p \<notin> ids \<longrightarrow> p' = p)) t t'"

lemma unchanged_outside_preorder: "preorder_on_rows (unchanged_outside ids)"
  unfolding preorder_on_rows_def unchanged_outside_def
proof (intro conjI allI impI)
  show "list_all2 (\<lambda>p p'. id_photo p' = id_photo p \<and> (id_photo p \<notin> ids \<longrightarrow> p' = p)) t t" for t
    by (simp add: list_all2_same)
  show "list_all2 (\<lambda>p p'. id_photo p' = id_photo p \<and> (id_photo p \<notin> ids \<longrightarrow> p' = p)) a c"
    if "list_all2 (\<lambda>p p'. id_photo p' = id_photo p \<and> (id_photo p \<notin> ids \<longrightarrow> p' = p)) a b"
      and "list_all2 (\<lambda>p p'. id_photo p' = id_photo p \<and> (id_photo p \<notin> ids \<longrightarrow> p' = p)) b c"
    for a b c
    using that(1) that(2) by (rule list_all2_trans [rotated]) auto
qed

lemma unchanged_outside_update_score:
  "unchanged_outside ids (photos_table w) (photos_table (update_score sc cm pid w))" if "pid \<in> ids"
  using that by (simp add: unchanged_outside_def update_score_def list_all2_map2 list_all2_same)

lemma unchanged_outside_scoring:
  "score_updates_respect (unchanged_outside (id_photo ` set batch)) batch"
  by (simp add: score_updates_respect_def unchanged_outside_update_score)

lemma apply_evaluation_no_match:
  assumes "\<forall>p\<in>set batch. own_property ev ''photo_id'' \<noteq> Some (JNum (of_nat (id_photo p)))"
  shows "snd (apply_evaluation E batch ev w) = w"
proof -
  have "find_photo batch (own_property ev ''photo_id'') = None"
    using assms by (auto simp: find_photo_def find_None_iff)
  then show ?thesis
    by (simp add: apply_evaluation_def get_property_def)
qed

text \<open>
  \<^bold>\<open>C9.\<close> An evaluation whose \<^verbatim>\<open>photo_id\<close> is not the id of a photo of the batch changes nothing
  in the world; and a whole batch call, whatever the service answers and however often it is
  retried, leaves every row unchanged whose id is not the id of a photo of the batch.
\<close>

theorem foreign_evaluations_ignored:
  "((\<forall>p\<in>set batch. own_property ev ''photo_id'' \<noteq> Some (JNum (of_nat (id_photo p))))
      \<longrightarrow> snd (apply_evaluation E batch ev w) = w)
   \<and> unchanged_outside (id_photo ` set batch) (photos_table w)
        (photos_table (snd (analyzeBatch E svc batch retryCount w)))"
proof (intro conjI impI)
  assume "\<forall>p\<in>set batch. own_property ev ''photo_id'' \<noteq> Some (JNum (of_nat (id_photo p)))"
  then show "snd (apply_evaluation E batch ev w) = w" by (rule apply_evaluation_no_match)
next
  obtain r w' where s: "analyzeBatch E svc batch retryCount w = (r, w')"
    by (cases "analyzeBatch E svc batch retryCount w")
  from analyzeBatch_respects [OF unchanged_outside_preorder unchanged_outside_scoring s]
  show "unchanged_outside (id_photo ` set batch) (photos_table w)
        (photos_table (snd (analyzeBatch E svc batch retryCount w)))"
    by (simp add: s)
qed

theorem foreign_evaluations_ignored_witness:
  "find_photo example_photos
      (own_property (JObj [(''photo_id'', JNum 7), (''score'', JNum 9), (''comment'', JStr ''other'')])
         ''photo_id'') = None
   \<and> snd (apply_evaluation example_env example_photos
          (JObj [(''photo_id'', JNum 7), (''score'', JNum 9), (''comment'', JStr ''other'')])
          example_world) = example_world
   \<and> id_photo other_photo \<notin> id_photo ` set example_photos
   \<and> photos_table example_world ! 3 = other_photo
   \<and> photos_table (snd (analyzeBatch example_env (answers response_photos_1_7) example_photos 0
         example_world)) ! 3 = other_photo
   \<and> map score (photos_table (snd (analyzeBatch example_env (answers response_photos_1_7)
         example_photos 0 example_world))) = [Some (17 / 2), None, None, None]"
proof -
  let ?ev = "JObj [(''photo_id'', JNum 7), (''score'', JNum 9), (''comment'', JStr ''other'')]"
  let ?w' = "snd (analyzeBatch example_env (answers response_photos_1_7) example_photos 0
               example_world)"
  note t = foreign_evaluations_ignored [where batch = example_photos and ev = ?ev
      and E = example_env and w = example_world and svc = "answers response_photos_1_7"
      and retryCount = 0]
  have h: "\<forall>p\<in>set example_photos. own_property ?ev ''photo_id'' \<noteq> Some (JNum (of_nat (id_photo p)))"
    by (simp add: example_photos_def example_photo_def own_property_def)
  from t h have a: "snd (apply_evaluation example_env example_photos ?ev example_world) = example_world"
    by blast
  have out: "id_photo other_photo \<notin> id_photo ` set example_photos"
    by (simp add: example_photos_def example_photo_def other_photo_def)
  have row: "photos_table example_world ! 3 = other_photo"
    by (simp add: example_world_def example_photos_def)
  have len: "3 < length (photos_table example_world)"
    by (simp add: example_world_def example_photos_def)
  from t have "unchanged_outside (id_photo ` set example_photos) (photos_table example_world)
                 (photos_table ?w')"
    by blast
  then have "id_photo (photos_table example_world ! 3) \<notin> id_photo ` set example_photos
               \<longrightarrow> photos_table ?w' ! 3 = photos_table example_world ! 3"
    unfolding unchanged_outside_def using len by (auto dest: list_all2_nthD)
  with out row have b: "photos_table ?w' ! 3 = other_photo" by simp
  have c: "map score (photos_table ?w') = [Some (17 / 2), None, None, None]"
    by code_simp
  have f: "find_photo example_photos (own_property ?ev ''photo_id'') = None"
    using h by (auto simp: find_photo_def find_None_iff)
  from f a out row b c show ?thesis by (intro conjI)
qed






section \<open>Invariants of the rows under a grouping run\<close>

lemma filter_includes_subset: "filter_includes v batch = Inr gp \<Longrightarrow> set gp \<subseteq> set batch"
  by (auto simp: filter_includes_def split: json.splits if_splits)

lemma fold_update_group_respects:
  assumes "preorder_on_rows R" and "group_updates_respect R batch"
  shows "set ps \<subseteq> set batch \<Longrightarrow>
           R (photos_table w) (photos_table (fold (\<lambda>p. update_group gid (id_photo p)) ps w))"
proof (induction ps arbitrary: w)
  case Nil
  with assms(1) show ?case by (simp add: preorder_refl)
next
  case (Cons p ps)
  have "R (photos_table w) (photos_table (update_group gid (id_photo p) w))"
    using assms(2) Cons.prems by (simp add: group_updates_respect_def)
  moreover have "R (photos_table (update_group gid (id_photo p) w))
       (photos_table (fold (\<lambda>p. update_group gid (id_photo p)) ps (update_group gid (id_photo p) w)))"
    using Cons.prems by (intro Cons.IH) simp
  ultimately have "R (photos_table w)
       (photos_table (fold (\<lambda>p. update_group gid (id_photo p)) ps (update_group gid (id_photo p) w)))"
    by (rule preorder_trans [OF assms(1)])
  then show ?case by simp
qed

lemma assign_group_cases:
  assumes "assign_group E batch grp w n = (r, w', n')"
  shows "w' = w \<or> (\<exists>gp. set gp \<subseteq> set batch
                        \<and> w' = fold (\<lambda>p. update_group n (id_photo p)) gp w)"
proof (cases "get_property grp ''photo_ids''")
  case (Inl err)
  with assms show ?thesis by (simp add: assign_group_def)
next
  case (Inr v)
  define photoIds where "photoIds = (if truthy v then the v else JArr [])"
  show ?thesis
  proof (cases "length_lt_2 E photoIds = Inr False")
    case False
    with assms Inr show ?thesis
      by (auto simp: assign_group_def photoIds_def Let_def split: sum.splits bool.splits)
  next
    case True
    show ?thesis
    proof (cases "filter_includes photoIds batch")
      case (Inl err)
      with assms Inr True show ?thesis
        by (simp add: assign_group_def photoIds_def Let_def)
    next
      case gp: (Inr gp)
      from filter_includes_subset [OF gp] have sub: "set gp \<subseteq> set batch" .
      show ?thesis
      proof (cases "length gp < 2")
        case short: True
        with assms Inr True gp show ?thesis
          by (simp add: assign_group_def photoIds_def Let_def)
      next
        case long: False
        with assms Inr True gp
        have "w' = fold (\<lambda>p. update_group n (id_photo p)) gp w"
          by (auto simp: assign_group_def photoIds_def Let_def split: option.splits)
        with sub show ?thesis by blast
      qed
    qed
  qed
qed

lemma assign_group_respects:
  assumes "preorder_on_rows R" and "group_updates_respect R batch"
    and "assign_group E batch grp w n = (r, w', n')"
  shows "R (photos_table w) (photos_table w')"
  using assign_group_cases [OF assms(3)] fold_update_group_respects [OF assms(1,2)]
    preorder_refl [OF assms(1)]
  by auto

lemma assignGroups_respects:
  assumes "preorder_on_rows R" and "group_updates_respect R batch"
  shows "assignGroups E batch gs w n = (r, w', n') \<Longrightarrow> R (photos_table w) (photos_table w')"
proof (induction gs arbitrary: w n)
  case Nil
  with assms(1) show ?case by (simp add: preorder_refl)
next
  case (Cons g gs)
  obtain r1 w1 n1 where s: "assign_group E batch g w n = (r1, w1, n1)"
    by (cases "assign_group E batch g w n")
  have a: "R (photos_table w) (photos_table w1)"
    by (rule assign_group_respects [OF assms s])
  show ?case
  proof (cases r1)
    case (Inl err)
    with Cons.prems s a show ?thesis by simp
  next
    case (Inr u)
    with Cons.prems s have "assignGroups E batch gs w1 n1 = (r, w', n')" by simp
    then have "R (photos_table w1) (photos_table w')" by (rule Cons.IH)
    with assms(1) a show ?thesis by (rule preorder_trans)
  qed
qed

lemma assign_results_respects:
  assumes "preorder_on_rows R" and "group_updates_respect R batch"
    and "assign_results E batch blocks w n = (r, w', n')"
  shows "R (photos_table w) (photos_table w')"
proof (cases "\<exists>gs. assignGroups E batch gs w n = (r, w', n')")
  case True
  then show ?thesis using assignGroups_respects [OF assms(1,2)] by blast
next
  case False
  with assms(3) have "w' = w"
    by (auto simp: assign_results_def split: list.splits content_block.splits sum.splits)
  with assms(1) show ?thesis by (simp add: preorder_refl)
qed

lemma grouping_attempt_respects:
  assumes "preorder_on_rows R" and "group_updates_respect R batch"
    and "grouping_attempt E svc batch w n = (r, w', n')"
  shows "R (photos_table w) (photos_table w')"
proof (cases "svc (api_calls w)")
  case (Rejects err)
  with assms(3) have "photos_table w' = photos_table w"
    by (auto simp: grouping_attempt_def)
  with assms(1) show ?thesis by (simp add: preorder_refl)
next
  case (Resolves blocks)
  with assms(3)
  have "assign_results E batch blocks (w\<lparr>api_calls := api_calls w + 1\<rparr>) n = (r, w', n')"
    by (simp add: grouping_attempt_def)
  from assign_results_respects [OF assms(1,2) this] show ?thesis by simp
qed

lemma processBatch_respects:
  assumes "preorder_on_rows R" and "group_updates_respect R batch"
  shows "processBatch E svc batch retryCount w n = (r, w', n')
           \<Longrightarrow> R (photos_table w) (photos_table w')"
proof (induction k \<equiv> "3 - retryCount" arbitrary: retryCount w n)
  case 0
  show ?case
  proof (cases "readable_thumbnails w batch = []")
    case True
    with "0.prems" have "w' = w" by (subst (asm) processBatch.simps) simp
    with assms(1) show ?thesis by (simp add: preorder_refl)
  next
    case False
    obtain r1 w1 n1 where att: "grouping_attempt E svc batch w n = (r1, w1, n1)"
      by (cases "grouping_attempt E svc batch w n")
    from 0 have "(status err = Some 429 \<and> retryCount < 3) = False" for err by simp
    then have "processBatch E svc batch retryCount w n = (r1, w1, n1)"
      by (intro processBatch_final [OF False att])
    with "0.prems" have "w' = w1" by simp
    with grouping_attempt_respects [OF assms att] show ?thesis by simp
  qed
next
  case (Suc k)
  show ?case
  proof (cases "readable_thumbnails w batch = []")
    case True
    with Suc.prems have "w' = w" by (subst (asm) processBatch.simps) simp
    with assms(1) show ?thesis by (simp add: preorder_refl)
  next
    case False
    obtain r1 w1 n1 where att: "grouping_attempt E svc batch w n = (r1, w1, n1)"
      by (cases "grouping_attempt E svc batch w n")
    note a = grouping_attempt_respects [OF assms att]
    note unf = processBatch_unfold [OF False att, of retryCount]
    show ?thesis
    proof (cases "\<exists>err. r1 = Inl err \<and> status err = Some 429 \<and> retryCount < 3")
      case True
      then obtain err where err: "r1 = Inl err" "status err = Some 429" "retryCount < 3" by blast
      let ?w2 = "sleep ((retryCount + 1) * 5000) w1"
      have "processBatch E svc batch retryCount w n
            = processBatch E svc batch (retryCount + 1) ?w2 n1"
        using err by (simp add: unf)
      from this Suc.prems have step: "processBatch E svc batch (retryCount + 1) ?w2 n1 = (r, w', n')"
        by (rule trans [OF sym])
      have k: "k = 3 - (retryCount + 1)" using Suc.hyps(2) by simp
      from Suc.hyps(1) [OF k step] have "R (photos_table w1) (photos_table w')" by simp
      with assms(1) a show ?thesis by (rule preorder_trans)
    next
      case False
      then have "(status err = Some 429 \<and> retryCount < 3) = False" if "r1 = Inl err" for err
        using that by simp
      then have "processBatch E svc batch retryCount w n = (r1, w1, n1)"
        by (intro processBatch_final [OF \<open>readable_thumbnails w batch \<noteq> []\<close> att])
      with Suc.prems have "w' = w1" by simp
      with a show ?thesis by simp
    qed
  qed
qed

lemma group_batches_respects:
  assumes "preorder_on_rows R" and "\<And>b. b \<in> set bs \<Longrightarrow> group_updates_respect R b"
  shows "group_batches E svc bs w n = (w', n') \<Longrightarrow> R (photos_table w) (photos_table w')"
  using assms(2)
proof (induction bs arbitrary: w n)
  case Nil
  with assms(1) show ?case by (simp add: preorder_refl)
next
  case (Cons b bs)
  have rest: "\<And>b'. b' \<in> set bs \<Longrightarrow> group_updates_respect R b'"
    using Cons.prems(2) by simp
  show ?case
  proof (cases "length b < 2")
    case True
    with Cons.prems(1) have "group_batches E svc bs w n = (w', n')" by simp
    from Cons.IH [OF this rest] show ?thesis .
  next
    case False
    obtain r1 w1 n1 where s: "processBatch E svc b 0 w n = (r1, w1, n1)"
      by (cases "processBatch E svc b 0 w n")
    have "group_updates_respect R b" using Cons.prems(2) by simp
    from processBatch_respects [OF assms(1) this s]
    have a: "R (photos_table w) (photos_table w1)" .
    from Cons.prems(1) False s have "group_batches E svc bs w1 n1 = (w', n')" by simp
    from Cons.IH [OF this rest] have "R (photos_table w1) (photos_table w')" .
    with assms(1) a show ?thesis by (rule preorder_trans)
  qed
qed

lemma groupPhotos_respects:
  assumes "preorder_on_rows R" and "\<And>b. group_updates_respect R b"
    and "\<And>pid w. R (photos_table w) (photos_table (clear_groups pid w))"
  shows "R (photos_table w) (photos_table (snd (groupPhotos E svc project w)))"
proof -
  define w1 where "w1 = clear_groups (id_project project) w"
  have c: "R (photos_table w) (photos_table w1)" unfolding w1_def by (rule assms(3))
  show ?thesis
  proof (cases "length (select_project_photos (id_project project) w1) < 2")
    case True
    then show ?thesis using c by (simp add: groupPhotos_def Let_def w1_def)
  next
    case False
    obtain w2 n2 where s: "group_batches E svc
        (batches GROUPING_BATCH_SIZE (select_project_photos (id_project project) w1)) w1 1
          = (w2, n2)"
      by (cases "group_batches E svc
        (batches GROUPING_BATCH_SIZE (select_project_photos (id_project project) w1)) w1 1")
    have "R (photos_table w1) (photos_table w2)"
      by (rule group_batches_respects [OF assms(1) assms(2) s])
    with assms(1) c have "R (photos_table w) (photos_table w2)" by (rule preorder_trans)
    then show ?thesis using False s by (simp add: groupPhotos_def Let_def w1_def)
  qed
qed

section \<open>Frame of the two runs\<close>

text \<open>A row with the fields a scoring run writes blanked, and with the field a grouping run
  writes blanked.\<close>

definition scoring_frame :: "Photo \<Rightarrow> Photo" where
  "scoring_frame p = p\<lparr>score := None, ai_comment := None, updated_at := 0\<rparr>"

definition grouping_frame :: "Photo \<Rightarrow> Photo" where
  "grouping_frame p = p\<lparr>similarity_group_id := None\<rparr>"

definition same_scoring_frame :: "Photo list \<Rightarrow> Photo list \<Rightarrow> bool" where
  "same_scoring_frame t t' = (map scoring_frame t' = map scoring_frame t)"

definition same_grouping_frame :: "Photo list \<Rightarrow> Photo list \<Rightarrow> bool" where
  "same_grouping_frame t t' = (map grouping_frame t' = map grouping_frame t)"

lemma same_scoring_frame_preorder: "preorder_on_rows same_scoring_frame"
  by (simp add: preorder_on_rows_def same_scoring_frame_def)

lemma same_grouping_frame_preorder: "preorder_on_rows same_grouping_frame"
  by (simp add: preorder_on_rows_def same_grouping_frame_def)

lemma scoring_frame_update:
  "scoring_frame (if id_photo p = pid then p\<lparr>score := sc, ai_comment := cm, updated_at := t\<rparr> else p)
     = scoring_frame p"
  by (simp add: scoring_frame_def)

lemma grouping_frame_update:
  "grouping_frame (if c then p\<lparr>similarity_group_id := g\<rparr> else p) = grouping_frame p"
  by (simp add: grouping_frame_def)

lemma same_scoring_frame_updates: "score_updates_respect same_scoring_frame batch"
  by (simp add: score_updates_respect_def same_scoring_frame_def update_score_def comp_def
        scoring_frame_update)

lemma same_grouping_frame_updates: "group_updates_respect same_grouping_frame batch"
  by (simp add: group_updates_respect_def same_grouping_frame_def update_group_def comp_def
        grouping_frame_update)

lemma same_grouping_frame_clear:
  "same_grouping_frame (photos_table w) (photos_table (clear_groups pid w))"
  by (simp add: same_grouping_frame_def clear_groups_def comp_def grouping_frame_update)

lemma scoring_frame_keeps:
  assumes "map scoring_frame t' = map scoring_frame t"
  shows "map selected t' = map selected t"
    and "map similarity_group_id t' = map similarity_group_id t"
proof -
  have "map selected t' = map selected (map scoring_frame t')"
    by (simp add: comp_def scoring_frame_def)
  also have "\<dots> = map selected (map scoring_frame t)" by (simp only: assms)
  also have "\<dots> = map selected t" by (simp add: comp_def scoring_frame_def)
  finally show "map selected t' = map selected t" .
  have "map similarity_group_id t' = map similarity_group_id (map scoring_frame t')"
    by (simp add: comp_def scoring_frame_def)
  also have "\<dots> = map similarity_group_id (map scoring_frame t)" by (simp only: assms)
  also have "\<dots> = map similarity_group_id t" by (simp add: comp_def scoring_frame_def)
  finally show "map similarity_group_id t' = map similarity_group_id t" .
qed

lemma grouping_frame_keeps:
  assumes "map grouping_frame t' = map grouping_frame t"
  shows "map score t' = map score t" and "map ai_comment t' = map ai_comment t"
    and "map selected t' = map selected t"
proof -
  have "map score t' = map score (map grouping_frame t')"
    by (simp add: comp_def grouping_frame_def)
  also have "\<dots> = map score (map grouping_frame t)" by (simp only: assms)
  also have "\<dots> = map score t" by (simp add: comp_def grouping_frame_def)
  finally show "map score t' = map score t" .
  have "map ai_comment t' = map ai_comment (map grouping_frame t')"
    by (simp add: comp_def grouping_frame_def)
  also have "\<dots> = map ai_comment (map grouping_frame t)" by (simp only: assms)
  also have "\<dots> = map ai_comment t" by (simp add: comp_def grouping_frame_def)
  finally show "map ai_comment t' = map ai_comment t" .
  have "map selected t' = map selected (map grouping_frame t')"
    by (simp add: comp_def grouping_frame_def)
  also have "\<dots> = map selected (map grouping_frame t)" by (simp only: assms)
  also have "\<dots> = map selected t" by (simp add: comp_def grouping_frame_def)
  finally show "map selected t' = map selected t" .
qed

text \<open>
  \<^bold>\<open>C10.\<close> A scoring run leaves the table of photos as it was up to the fields \<^verbatim>\<open>score\<close>,
  \<^verbatim>\<open>ai_comment\<close> and \<^verbatim>\<open>updated_at\<close> of its rows: the same rows in the same order, each with every
  other field unchanged, in particular \<^verbatim>\<open>selected\<close> and \<^verbatim>\<open>similarity_group_id\<close>. A grouping run
  leaves the table as it was up to the field \<^verbatim>\<open>similarity_group_id\<close> of its rows, in particular
  \<^verbatim>\<open>score\<close>, \<^verbatim>\<open>ai_comment\<close> and \<^verbatim>\<open>selected\<close> are unchanged. This holds for every environment,
  every behaviour of the service and every project.
\<close>

theorem runs_frame:
  "map scoring_frame (photos_table (snd (analyzePhotos E svc project w)))
     = map scoring_frame (photos_table w)
   \<and> map selected (photos_table (snd (analyzePhotos E svc project w)))
     = map selected (photos_table w)
   \<and> map similarity_group_id (photos_table (snd (analyzePhotos E svc project w)))
     = map similarity_group_id (photos_table w)
   \<and> map grouping_frame (photos_table (snd (groupPhotos E svc project w)))
     = map grouping_frame (photos_table w)
   \<and> map score (photos_table (snd (groupPhotos E svc project w))) = map score (photos_table w)
   \<and> map ai_comment (photos_table (snd (groupPhotos E svc project w)))
     = map ai_comment (photos_table w)
   \<and> map selected (photos_table (snd (groupPhotos E svc project w)))
     = map selected (photos_table w)"
proof -
  have s: "map scoring_frame (photos_table (snd (analyzePhotos E svc project w)))
             = map scoring_frame (photos_table w)"
    using analyzePhotos_respects [OF same_scoring_frame_preorder same_scoring_frame_updates,
        of w E svc project]
    by (simp add: same_scoring_frame_def)
  have g: "map grouping_frame (photos_table (snd (groupPhotos E svc project w)))
             = map grouping_frame (photos_table w)"
    using groupPhotos_respects [OF same_grouping_frame_preorder same_grouping_frame_updates
        same_grouping_frame_clear, of w E svc project]
    by (simp add: same_grouping_frame_def)
  from s g scoring_frame_keeps [OF s] grouping_frame_keeps [OF g] show ?thesis
    by (intro conjI)
qed

theorem runs_frame_witness:
  "map selected (photos_table (snd (analyzePhotos example_env (answers response_photos_1_7)
      example_project example_world))) = map selected (photos_table example_world)
   \<and> map similarity_group_id (photos_table (snd (analyzePhotos example_env
      (answers response_photos_1_7) example_project example_world)))
     = map similarity_group_id (photos_table example_world)
   \<and> map score (photos_table (snd (analyzePhotos example_env (answers response_photos_1_7)
      example_project example_world))) = [Some (17 / 2), None, None, None]
   \<and> map score (photos_table (snd (groupPhotos example_env (answers response_overlapping_groups)
      example_project example_world))) = map score (photos_table example_world)
   \<and> map selected (photos_table (snd (groupPhotos example_env (answers response_overlapping_groups)
      example_project example_world))) = map selected (photos_table example_world)
   \<and> map similarity_group_id (photos_table (snd (groupPhotos example_env
      (answers response_overlapping_groups) example_project example_world)))
     = [Some 1, Some 2, Some 2, None]"
proof -
  note a = runs_frame [of example_env "answers response_photos_1_7" example_project example_world]
  note g = runs_frame [of example_env "answers response_overlapping_groups" example_project
      example_world]
  have sc: "map score (photos_table (snd (analyzePhotos example_env (answers response_photos_1_7)
      example_project example_world))) = [Some (17 / 2), None, None, None]"
    by code_simp
  have gr: "map similarity_group_id (photos_table (snd (groupPhotos example_env
      (answers response_overlapping_groups) example_project example_world)))
     = [Some 1, Some 2, Some 2, None]"
    by code_simp
  from a g sc gr show ?thesis by blast
qed

section \<open>The number a scoring run returns\<close>

text \<open>
  For each batch of the loop of \<^verbatim>\<open>analyzePhotos\<close>, in order, whether its \<^verbatim>\<open>analyzeBatch\<close> call
  returned without raising, that is, whether the \<^verbatim>\<open>try\<close> block went on to
  \<^verbatim>\<open>processed += batch.length\<close>. The world is threaded exactly as the loop threads it.
\<close>

fun batch_completes ::
  "env \<Rightarrow> service \<Rightarrow> nat \<Rightarrow> Photo list list \<Rightarrow> nat \<Rightarrow> nat \<Rightarrow> world \<Rightarrow> bool list" where
  "batch_completes E svc tot [] k processed w = []"
| "batch_completes E svc tot (batch # rest) k processed w =
     (case analyzeBatch E svc batch 0 (onProgress processed tot (AnalyzingBatch (k + 1)) w) of
        (Inr u, w') \<Rightarrow>
          True # batch_completes E svc tot rest (k + 1) (processed + length batch) w'
      | (Inl err, w') \<Rightarrow>
          False # batch_completes E svc tot rest (k + 1) processed
                    (onProgress processed tot (ErrorInBatch (message err)) w'))"

definition run_batches :: "Project \<Rightarrow> world \<Rightarrow> Photo list list" where
  "run_batches project w = batches SCORING_BATCH_SIZE (select_unscored (id_project project) w)"

definition run_completes :: "env \<Rightarrow> service \<Rightarrow> Project \<Rightarrow> world \<Rightarrow> bool list" where
  "run_completes E svc project w =
     batch_completes E svc (length (select_unscored (id_project project) w))
       (run_batches project w) 0 0 w"

text \<open>The photos of the batches that completed.\<close>

definition counted :: "Photo list list \<Rightarrow> bool list \<Rightarrow> nat" where
  "counted bs oks = sum_list (map (\<lambda>(b, ok). if ok then length b else 0) (zip bs oks))"

lemma counted_simps [simp]:
  "counted [] oks = 0"
  "counted (b # bs) (ok # oks) = (if ok then length b else 0) + counted bs oks"
  by (simp_all add: counted_def)

lemma length_batch_completes:
  "length (batch_completes E svc tot bs k processed w) = length bs"
proof (induction bs arbitrary: k processed w)
  case Nil
  then show ?case by simp
next
  case (Cons b bs)
  then show ?case by (simp split: prod.splits sum.splits)
qed

lemma analyze_batches_count:
  "fst (analyze_batches E svc tot bs k processed w)
     = processed + counted bs (batch_completes E svc tot bs k processed w)"
proof (induction bs arbitrary: k processed w)
  case Nil
  then show ?case by simp
next
  case (Cons b bs)
  obtain r1 w1 where s:
    "analyzeBatch E svc b 0 (onProgress processed tot (AnalyzingBatch (k + 1)) w) = (r1, w1)"
    by (cases "analyzeBatch E svc b 0 (onProgress processed tot (AnalyzingBatch (k + 1)) w)")
  show ?case
  proof (cases r1)
    case (Inl err)
    then show ?thesis using s Cons.IH by simp
  next
    case (Inr u)
    then show ?thesis using s Cons.IH by simp
  qed
qed

lemma counted_le: "length oks = length bs \<Longrightarrow> counted bs oks \<le> length (concat bs)"
proof (induction bs arbitrary: oks)
  case Nil
  then show ?case by simp
next
  case (Cons b bs)
  then obtain ok oks' where oks: "oks = ok # oks'" "length oks' = length bs"
    by (cases oks) auto
  from Cons.IH [OF oks(2)] show ?case by (simp add: oks(1))
qed

lemma counted_all: "length oks = length bs \<Longrightarrow> \<forall>c\<in>set oks. c \<Longrightarrow> counted bs oks = length (concat bs)"
proof (induction bs arbitrary: oks)
  case Nil
  then show ?case by simp
next
  case (Cons b bs)
  then obtain ok oks' where oks: "oks = ok # oks'" "length oks' = length bs"
    by (cases oks) auto
  from Cons.prems(2) have "ok" and rest: "\<forall>c\<in>set oks'. c"
    unfolding oks(1) by auto
  with Cons.IH [OF oks(2) rest] show ?case by (simp add: oks(1))
qed

lemma concat_run_batches:
  "concat (run_batches project w) = select_unscored (id_project project) w"
  by (simp add: run_batches_def batches_def concat_batches_from SCORING_BATCH_SIZE_def)

text \<open>
  \<^bold>\<open>C4\<close> (as the code has it). The number \<^verbatim>\<open>analyzePhotos\<close> returns is the number of photos in
  the batches whose \<^verbatim>\<open>analyzeBatch\<close> call returned without raising: each such batch counts with
  its full length, whatever its response contained. The number is at most the number of
  unscored photos the run selected, and equal to it when no batch call raised.
\<close>

theorem analyzePhotos_returns:
  "fst (analyzePhotos E svc project w)
     = counted (run_batches project w) (run_completes E svc project w)
   \<and> fst (analyzePhotos E svc project w) \<le> length (select_unscored (id_project project) w)
   \<and> ((\<forall>ok\<in>set (run_completes E svc project w). ok)
        \<longrightarrow> fst (analyzePhotos E svc project w) = length (select_unscored (id_project project) w))"
proof -
  define U where "U = select_unscored (id_project project) w"
  have len: "length (run_completes E svc project w) = length (run_batches project w)"
    by (simp add: run_completes_def length_batch_completes)
  have cc: "length (concat (run_batches project w)) = length U"
    by (simp add: concat_run_batches U_def)
  have eq: "fst (analyzePhotos E svc project w)
              = counted (run_batches project w) (run_completes E svc project w)"
  proof (cases "length U = 0")
    case True
    then have "run_batches project w = []"
      by (simp add: run_batches_def U_def batches_def batches_from.simps)
    with True show ?thesis by (simp add: analyzePhotos_def U_def)
  next
    case False
    have "fst (analyzePhotos E svc project w)
            = fst (analyze_batches E svc (length U) (run_batches project w) 0 0 w)"
      using False by (simp add: analyzePhotos_def Let_def U_def run_batches_def split: prod.splits)
    then show ?thesis
      by (simp add: analyze_batches_count run_completes_def U_def)
  qed
  have le: "fst (analyzePhotos E svc project w) \<le> length U"
    using counted_le [OF len] cc by (simp add: eq)
  have all: "fst (analyzePhotos E svc project w) = length U"
    if "\<forall>ok\<in>set (run_completes E svc project w). ok"
    using counted_all [OF len that] cc by (simp add: eq)
  from eq le all show ?thesis unfolding U_def by blast
qed

theorem analyzePhotos_returns_witness:
  "run_completes example_env (answers response_photos_1_7) example_project example_world = [True]
   \<and> run_batches example_project example_world = [example_photos]
   \<and> fst (analyzePhotos example_env (answers response_photos_1_7) example_project example_world)
       = length example_photos
   \<and> run_completes example_env always_limited example_project example_world = [False]
   \<and> fst (analyzePhotos example_env always_limited example_project example_world) = 0"
proof -
  note t = analyzePhotos_returns [of example_env "answers response_photos_1_7" example_project
      example_world]
  note u = analyzePhotos_returns [of example_env always_limited example_project example_world]
  have c: "run_completes example_env (answers response_photos_1_7) example_project example_world
             = [True]"
    by code_simp
  have d: "run_completes example_env always_limited example_project example_world = [False]"
    by code_simp
  have b: "run_batches example_project example_world = [example_photos]"
    by code_simp
  from t have "fst (analyzePhotos example_env (answers response_photos_1_7) example_project
      example_world) = counted (run_batches example_project example_world)
        (run_completes example_env (answers response_photos_1_7) example_project example_world)"
    by blast
  then have a: "fst (analyzePhotos example_env (answers response_photos_1_7) example_project
      example_world) = length example_photos"
    by (simp add: c b)
  from u have "fst (analyzePhotos example_env always_limited example_project example_world)
      = counted (run_batches example_project example_world)
          (run_completes example_env always_limited example_project example_world)"
    by blast
  then have e: "fst (analyzePhotos example_env always_limited example_project example_world) = 0"
    by (simp add: d b)
  from c b a d e show ?thesis by (intro conjI)
qed

text \<open>
  \<^bold>\<open>C4\<close> as stated fails. When the response of the one batch parses to an empty evaluations
  list the run returns 3 and has written no score; when the response evaluates photo 1 only
  (and a photo that is not in the batch) the run returns 3 and has written one score.
\<close>

theorem analyzePhotos_count_counterexample:
  "fst (analyzePhotos example_env (answers response_no_evaluations) example_project example_world)
     = 3
   \<and> map score (photos_table (snd (analyzePhotos example_env (answers response_no_evaluations)
        example_project example_world))) = [None, None, None, None]
   \<and> photos_table (snd (analyzePhotos example_env (answers response_no_evaluations)
        example_project example_world)) = photos_table example_world
   \<and> fst (analyzePhotos example_env (answers response_photos_1_7) example_project example_world)
     = 3
   \<and> map score (photos_table (snd (analyzePhotos example_env (answers response_photos_1_7)
        example_project example_world))) = [Some (17 / 2), None, None, None]"
proof (intro conjI)
  show "fst (analyzePhotos example_env (answers response_no_evaluations) example_project
          example_world) = 3"
    by code_simp
  show "map score (photos_table (snd (analyzePhotos example_env (answers response_no_evaluations)
        example_project example_world))) = [None, None, None, None]"
    by code_simp
  show "photos_table (snd (analyzePhotos example_env (answers response_no_evaluations)
        example_project example_world)) = photos_table example_world"
    by code_simp
  show "fst (analyzePhotos example_env (answers response_photos_1_7) example_project
          example_world) = 3"
    by code_simp
  show "map score (photos_table (snd (analyzePhotos example_env (answers response_photos_1_7)
        example_project example_world))) = [Some (17 / 2), None, None, None]"
    by code_simp
qed

section \<open>Properties of the Grouping Reconciler\<close>

text \<open>
  \<^bold>\<open>C3.\<close> The grouping run on three photos of a project, for the response with the proposals
  \<^verbatim>\<open>{photo_ids: [1, 2]}\<close> and \<^verbatim>\<open>{photo_ids: [2, 3]}\<close>: the first proposal gives photos 1 and 2 the
  group 1, the second gives photos 2 and 3 the group 2, and photo 1 stays behind as the only
  member of group 1. The run reports two groups.
\<close>

theorem overlapping_proposals_leave_singleton:
  "map similarity_group_id (photos_table (snd (groupPhotos example_env
      (answers response_overlapping_groups) example_project example_world)))
     = [Some 1, Some 2, Some 2, None]
   \<and> length (filter (\<lambda>p. similarity_group_id p = Some 1)
        (photos_table (snd (groupPhotos example_env (answers response_overlapping_groups)
           example_project example_world)))) = 1
   \<and> fst (groupPhotos example_env (answers response_overlapping_groups) example_project
        example_world) = 2"
proof (intro conjI)
  show "map similarity_group_id (photos_table (snd (groupPhotos example_env
      (answers response_overlapping_groups) example_project example_world)))
     = [Some 1, Some 2, Some 2, None]"
    by code_simp
  show "length (filter (\<lambda>p. similarity_group_id p = Some 1)
        (photos_table (snd (groupPhotos example_env (answers response_overlapping_groups)
           example_project example_world)))) = 1"
    by code_simp
  show "fst (groupPhotos example_env (answers response_overlapping_groups) example_project
        example_world) = 2"
    by code_simp
qed

section \<open>Properties of the Ingestion Pipeline\<close>

lemma processUpload_unreadable:
  "fs_files w filePath = None \<Longrightarrow>
     processUpload E storagePath project filePath w = Some (Inl (JsError None ''ENOENT''), w)"
  by (simp add: processUpload_def)

lemma processUpload_duplicate:
  assumes "fs_files w filePath = Some fileBuffer"
    and "find (\<lambda>p. project_id p = id_project project \<and> file_hash p = sha256_hex E fileBuffer)
           (photos_table w) = Some existing"
  shows "processUpload E storagePath project filePath w
         = Some (Inr \<lparr>duplicate = True, photo = None, existingPhoto = Some existing\<rparr>, w)"
  using assms by (simp add: processUpload_def)

text \<open>
  \<^bold>\<open>C6.\<close> When the file at \<open>filePath\<close> can be read and the fingerprint of its bytes is the
  \<^verbatim>\<open>file_hash\<close> of a photo of the project, \<^verbatim>\<open>processUpload\<close> returns \<^verbatim>\<open>duplicate = true\<close> with such
  a photo as the existing record, and the world after the call is the world before it: no row
  is created, no file or directory is written. The path of the file plays no part: the same
  bytes under any name give the same result.
\<close>

theorem duplicate_upload_is_noop:
  assumes "fs_files w filePath = Some fileBuffer"
    and "p \<in> set (photos_table w)" and "project_id p = id_project project"
    and "file_hash p = sha256_hex E fileBuffer"
  shows "\<exists>existing.
           processUpload E storagePath project filePath w
             = Some (Inr \<lparr>duplicate = True, photo = None, existingPhoto = Some existing\<rparr>, w)
         \<and> existing \<in> set (photos_table w)
         \<and> project_id existing = id_project project
         \<and> file_hash existing = sha256_hex E fileBuffer"
proof -
  let ?P = "\<lambda>p. project_id p = id_project project \<and> file_hash p = sha256_hex E fileBuffer"
  from assms(2,3,4) have "find ?P (photos_table w) \<noteq> None"
    by (auto simp: find_None_iff)
  then obtain existing where f: "find ?P (photos_table w) = Some existing" by auto
  then have "existing \<in> set (photos_table w)" "?P existing"
    by (auto simp: find_Some_iff)
  with processUpload_duplicate [OF assms(1) f] show ?thesis by blast
qed

theorem duplicate_upload_is_noop_witness:
  "fs_files example_world ''/camera/copy of a.jpg'' = Some ''bytes of a''
   \<and> example_photo 1 ''a'' \<in> set (photos_table example_world)
   \<and> original_filename (example_photo 1 ''a'') = ''a.jpg''
   \<and> file_hash (example_photo 1 ''a'') = sha256_hex example_env ''bytes of a''
   \<and> (\<exists>existing.
         processUpload example_env ''/store'' example_project ''/camera/copy of a.jpg''
           example_world
           = Some (Inr \<lparr>duplicate = True, photo = None, existingPhoto = Some existing\<rparr>,
                   example_world)
       \<and> existing \<in> set (photos_table example_world)
       \<and> file_hash existing = sha256_hex example_env ''bytes of a'')"
proof -
  have h1: "fs_files example_world ''/camera/copy of a.jpg'' = Some ''bytes of a''"
    by (simp add: example_world_def example_files_def)
  have h2: "example_photo 1 ''a'' \<in> set (photos_table example_world)"
    by (simp add: example_world_def example_photos_def)
  have h3: "project_id (example_photo 1 ''a'') = id_project example_project"
    by (simp add: example_photo_def example_project_def)
  have h4: "file_hash (example_photo 1 ''a'') = sha256_hex example_env ''bytes of a''"
    by (simp add: example_photo_def example_env_def)
  have n: "original_filename (example_photo 1 ''a'') = ''a.jpg''"
    by (simp add: example_photo_def)
  from duplicate_upload_is_noop [OF h1 h2 h3 h4, of "''/store''"]
  have "\<exists>existing.
         processUpload example_env ''/store'' example_project ''/camera/copy of a.jpg''
           example_world
           = Some (Inr \<lparr>duplicate = True, photo = None, existingPhoto = Some existing\<rparr>,
                   example_world)
       \<and> existing \<in> set (photos_table example_world)
       \<and> file_hash existing = sha256_hex example_env ''bytes of a''"
    by blast
  with h1 h2 n h4 show ?thesis by (intro conjI)
qed

lemma upload_files_append:
  "upload_files E storagePath project tot i (pre @ later) results w =
     (case upload_files E storagePath project tot i pre results w of
        Some (Inr results', w') \<Rightarrow>
          upload_files E storagePath project tot (i + length pre) later results' w'
      | other \<Rightarrow> other)"
proof (induction pre arbitrary: i results w)
  case Nil
  then show ?case by simp
next
  case (Cons filePath pre)
  show ?case
  proof (cases "processUpload E storagePath project filePath w")
    case None
    then show ?thesis by simp
  next
    case (Some a)
    obtain r w1 where a: "a = (r, w1)" by (cases a)
    show ?thesis
    proof (cases r)
      case (Inl err)
      with Some a show ?thesis by simp
    next
      case (Inr res)
      with Some a show ?thesis
        by (simp add: Cons.IH split: option.splits prod.splits sum.splits)
    qed
  qed
qed

text \<open>
  \<^bold>\<open>C2\<close> (as the code has it). A file that cannot be read makes \<^verbatim>\<open>processUpload\<close> reject, and the
  loop of the upload handler has no \<^verbatim>\<open>try\<close> around the call: when the files before it were
  processed, the handler's run ends at the unreadable file with the read error, in the world
  those earlier files left. The files after it are not processed, whatever they are, and
  neither they nor the failed file send a progress notification.
\<close>

theorem unreadable_file_ends_upload:
  assumes "upload_files E storagePath project tot i pre results w = Some (Inr results', w')"
    and "fs_files w' filePath = None"
  shows "upload_files E storagePath project tot i (pre @ filePath # rest) results w
         = Some (Inl (JsError None ''ENOENT''), w')"
  using assms by (simp add: upload_files_append processUpload_unreadable)

theorem unreadable_file_ends_upload_witness:
  "upload_files example_env ''/store'' example_project 3 0 [''/camera/copy of a.jpg'']
       \<lparr>uploaded = 0, duplicates = 0, uploaded_photos = []\<rparr> example_world
     = Some (Inr \<lparr>uploaded = 0, duplicates = 1, uploaded_photos = []\<rparr>,
             send_upload_progress 1 3 ''copy of a.jpg'' example_world)
   \<and> fs_files (send_upload_progress 1 3 ''copy of a.jpg'' example_world) ''/camera/missing.jpg''
       = None
   \<and> fs_files (send_upload_progress 1 3 ''copy of a.jpg'' example_world) ''/camera/d.jpg''
       = Some ''bytes of d''
   \<and> upload_files example_env ''/store'' example_project 3 0
        ([''/camera/copy of a.jpg''] @ ''/camera/missing.jpg'' # [''/camera/d.jpg''])
        \<lparr>uploaded = 0, duplicates = 0, uploaded_photos = []\<rparr> example_world
     = Some (Inl (JsError None ''ENOENT''),
             send_upload_progress 1 3 ''copy of a.jpg'' example_world)"
proof -
  have f: "find (\<lambda>p. project_id p = id_project example_project
                     \<and> file_hash p = sha256_hex example_env ''bytes of a'')
             (photos_table example_world) = Some (example_photo 1 ''a'')"
    by (simp add: example_world_def example_photos_def example_photo_def example_project_def
          example_env_def)
  have r: "fs_files example_world ''/camera/copy of a.jpg'' = Some ''bytes of a''"
    by (simp add: example_world_def example_files_def)
  have b: "path_basename example_env ''/camera/copy of a.jpg'' = ''copy of a.jpg''"
    by (simp add: example_env_def)
  have h1: "upload_files example_env ''/store'' example_project 3 0 [''/camera/copy of a.jpg'']
       \<lparr>uploaded = 0, duplicates = 0, uploaded_photos = []\<rparr> example_world
     = Some (Inr \<lparr>uploaded = 0, duplicates = 1, uploaded_photos = []\<rparr>,
             send_upload_progress 1 3 ''copy of a.jpg'' example_world)"
    by (simp add: processUpload_duplicate [OF r f] count_result_def b)
  have h2: "fs_files (send_upload_progress 1 3 ''copy of a.jpg'' example_world)
              ''/camera/missing.jpg'' = None"
    by (simp add: send_upload_progress_def example_world_def example_files_def)
  have h3: "fs_files (send_upload_progress 1 3 ''copy of a.jpg'' example_world) ''/camera/d.jpg''
              = Some ''bytes of d''"
    by (simp add: send_upload_progress_def example_world_def example_files_def)
  from h1 h2 h3 unreadable_file_ends_upload [OF h1 h2, of "[''/camera/d.jpg'']"]
  show ?thesis by (intro conjI)
qed

text \<open>
  \<^bold>\<open>C2\<close> as stated fails: in an upload of a missing file followed by a new, readable file the
  handler rejects with the read error and leaves the world as it was. The second file is not
  ingested: no row, no file, no progress notification.
\<close>

theorem upload_continues_counterexample:
  "fs_files example_world ''/camera/missing.jpg'' = None
   \<and> fs_files example_world ''/camera/d.jpg'' = Some ''bytes of d''
   \<and> find (\<lambda>p. project_id p = 1 \<and> file_hash p = sha256_hex example_env ''bytes of d'')
        (photos_table example_world) = None
   \<and> photos_upload example_env ''/store'' 1 [''/camera/missing.jpg'', ''/camera/d.jpg'']
        example_world
     = Some (Inl (JsError None ''ENOENT''), example_world)"
proof (intro conjI)
  show m: "fs_files example_world ''/camera/missing.jpg'' = None"
    by (simp add: example_world_def example_files_def)
  show "fs_files example_world ''/camera/d.jpg'' = Some ''bytes of d''"
    by (simp add: example_world_def example_files_def)
  show "find (\<lambda>p. project_id p = 1 \<and> file_hash p = sha256_hex example_env ''bytes of d'')
        (photos_table example_world) = None"
    by (simp add: example_world_def example_photos_def example_photo_def other_photo_def
          example_env_def)
  have p: "find (\<lambda>p. id_project p = 1) (projects_table example_world) = Some example_project"
    by (simp add: example_world_def example_project_def)
  show "photos_upload example_env ''/store'' 1 [''/camera/missing.jpg'', ''/camera/d.jpg'']
        example_world
     = Some (Inl (JsError None ''ENOENT''), example_world)"
    unfolding photos_upload_def p by (simp add: processUpload_unreadable [OF m])
qed

end
